theory Spec2Isabelle
  imports Main "HOL-Library.Word"
begin

unbundle bit_operations_syntax

section \<open>Data model of network.cpp\<close>

text \<open>
  The theory embeds the socket layer of O2 (\<^verbatim>\<open>src/network.cpp\<close>, the poll() variant):
  the two parallel arrays \<^verbatim>\<open>o2n_fds\<close> and \<^verbatim>\<open>o2n_fds_info\<close>, the \<^verbatim>\<open>Fds_info\<close>
  objects they point to, and the functions that create, use and delete them.

  \<^item> \<^verbatim>\<open>Fds_info\<close> objects live on a heap (a map from addresses to records), because
    \<^verbatim>\<open>o2n_fds_info\<close> is a vector of pointers and the destructor re-stamps an object
    through such a pointer.
  \<^item> A C \<^verbatim>\<open>int\<close> is an \<open>int\<close>; the values that occur (indices, byte counts) stay far
    from the 32-bit bounds. The 4-byte length prefix is a \<open>32 word\<close>, poll flags are a
    \<open>16 word\<close>, a byte is an \<open>8 word\<close>.
  \<^item> Every \<^verbatim>\<open>assert\<close> that fails and every access through a dangling pointer or outside
    a vector is the error result \<open>Inl\<close>.
  \<^item> The operating system and the owner objects (\<^verbatim>\<open>Net_interface\<close>) are the
    environment: their answers are oracles indexed by a system call counter, and
    their observable effects are logged in the state.
\<close>

type_synonym byte = "8 word"
type_synonym addr = nat
type_synonym owner = nat

definition INVALID_SOCKET :: int where
  "INVALID_SOCKET = -1"

definition POLLIN :: "16 word" where "POLLIN = 1"
definition POLLOUT :: "16 word" where "POLLOUT = 4"
definition POLLERR :: "16 word" where "POLLERR = 8"
definition POLLHUP :: "16 word" where "POLLHUP = 16"

datatype O2err = O2_SUCCESS | O2_FAIL | O2_BLOCKED | O2_TCP_HUP | O2_SOCKET_ERROR

text \<open>
  Modelled from the spec: the \<^verbatim>\<open>net_tag\<close> constants are declared in a header that is
  not part of the sources. \<^verbatim>\<open>Fds_info::tag_to_string\<close> lists the six values;
  LISTENING is \<^verbatim>\<open>NET_TCP_SERVER\<close> and ACCEPTED is \<^verbatim>\<open>NET_TCP_CONNECTION\<close>.
\<close>

datatype net_tag =
    NET_UDP_SERVER
  | NET_TCP_SERVER
  | NET_TCP_CONNECTING
  | NET_TCP_CLIENT
  | NET_TCP_CONNECTION
  | NET_INFO_CLOSED

datatype errno = EAGAIN | EINTR | EINPROGRESS | ECONNREFUSED | ECONNRESET | EPIPE

datatype error = AssertionFailed | InvalidAccess

text \<open>
  Modelled from the spec: \<^verbatim>\<open>o2n_message\<close> is declared in a missing header. It is a
  FIFO link, a 32-bit \<^verbatim>\<open>length\<close> and the \<^verbatim>\<open>payload\<close> bytes directly behind the length
  (\<^verbatim>\<open>send\<close> writes length and payload with one call starting at \<^verbatim>\<open>&msg->length\<close>).
  The link is the position in the queue, a list.
\<close>

record o2n_message =
  msg_length :: int
  payload :: "byte list"

record pollfd =
  fd :: int
  events :: "16 word"
  revents :: "16 word"

record sockaddr_in =
  sin_addr :: "32 word"
  sin_port :: "16 word"

record Fds_info =
  net_tag :: net_tag
  fds_index :: int
  delete_me :: bool
  raw_flag :: bool
  in_length :: "32 word"
  in_message :: "o2n_message option"
  in_length_got :: int
  in_msg_got :: int
  out_message :: "o2n_message list"
  out_msg_sent :: int
  port :: int
  owner :: "owner option"

datatype event =
    Accepted owner addr
  | Connected owner
  | Delivered owner o2n_message
  | Removed owner

text \<open>
  The state: the globals of network.cpp, the heap of \<^verbatim>\<open>Fds_info\<close> objects, and the
  world outside the process. \<open>clock\<close> counts the system calls that return an answer;
  \<open>wire\<close> holds, per socket, the bytes that \<^verbatim>\<open>send\<close> calls have accepted; \<open>rx\<close> holds,
  per socket, the bytes that have arrived and are not yet read; \<open>closed\<close> lists the
  sockets passed to \<^verbatim>\<open>closesocket\<close>, \<open>freed\<close> the messages passed to \<^verbatim>\<open>O2_FREE\<close>,
  \<open>sendto_calls\<close> the datagrams passed to \<^verbatim>\<open>sendto\<close>, \<open>diag\<close> the lines written with
  \<^verbatim>\<open>perror\<close> and \<^verbatim>\<open>printf\<close>, and \<open>calls\<close> the calls made to owner objects. \<open>nonblock\<close>
  holds, per socket, the file status flag \<^verbatim>\<open>O_NONBLOCK\<close>: a descriptor that \<^verbatim>\<open>socket\<close> or
  \<^verbatim>\<open>accept\<close> returns is in blocking mode until \<^verbatim>\<open>fcntl\<close> sets the flag.
\<close>

record net =
  o2n_fds :: "pollfd list"
  o2n_fds_info :: "addr list"
  heap :: "addr \<Rightarrow> Fds_info option"
  next_addr :: addr
  o2n_socket_delete_flag :: bool
  o2_ensemble_name :: bool
  o2n_udp_send_sock :: int
  o2n_broadcast_sock :: int
  local_to_addr :: sockaddr_in
  o2n_broadcast_to_addr :: sockaddr_in
  clock :: nat
  wire :: "int \<Rightarrow> byte list"
  rx :: "int \<Rightarrow> byte list"
  udp_rx :: "int \<Rightarrow> byte list list"
  sendto_calls :: "(int \<times> sockaddr_in \<times> byte list) list"
  closed :: "int list"
  freed :: "o2n_message list"
  diag :: "string list"
  calls :: "event list"
  nonblock :: "int \<Rightarrow> bool"

text \<open>
  The environment. A system call that returns a status gives the pair of its return
  value and \<^verbatim>\<open>errno\<close> (read only when the value is negative). \<open>sys_send\<close> also sees
  the number of bytes offered. \<open>sys_recv_empty\<close> answers a \<^verbatim>\<open>recvfrom\<close> on a non-blocking
  socket whose buffer is empty, \<open>sys_recv_wait\<close> one on a blocking socket. The owner objects are outside the sources: \<open>on_accepted\<close>
  is the owner that \<^verbatim>\<open>accepted()\<close> attaches to the new connection, \<open>on_deliver\<close> the
  status \<^verbatim>\<open>deliver()\<close> returns, and \<open>on_remove\<close> the connections on which \<^verbatim>\<open>remove()\<close>
  calls \<^verbatim>\<open>close_socket\<close> (the cascade that the comment in
  \<^verbatim>\<open>o2n_free_deleted_sockets\<close> describes).
\<close>

text \<open>
  What ends a \<^verbatim>\<open>recvfrom\<close> that waits on a socket in blocking mode: bytes arrive (no
  bytes: the peer has shut the connection down and the call returns 0), the call
  fails with an \<^verbatim>\<open>errno\<close>, or nothing happens and the call never returns.
\<close>

datatype recv_wait = Arrives "byte list" | RecvFails errno | Forever

record env =
  sys_sendto :: "nat \<Rightarrow> int \<times> errno"
  sys_send :: "nat \<Rightarrow> int \<Rightarrow> int \<times> errno"
  sys_socket :: "nat \<Rightarrow> int"
  sys_connect :: "nat \<Rightarrow> int \<times> errno"
  sys_select :: "nat \<Rightarrow> int \<times> errno"
  sys_so_error :: "nat \<Rightarrow> int"
  sys_recv_empty :: "nat \<Rightarrow> int \<times> errno"
  sys_recv_wait :: "nat \<Rightarrow> recv_wait"
  accept_inherits :: bool
  sys_fionread :: "nat \<Rightarrow> int"
  sys_accept :: "nat \<Rightarrow> int"
  sys_poll :: "nat \<Rightarrow> nat \<Rightarrow> 16 word"
  on_accepted :: "owner \<Rightarrow> owner option"
  on_deliver :: "owner \<Rightarrow> o2n_message \<Rightarrow> O2err"
  on_remove :: "owner \<Rightarrow> net \<Rightarrow> addr list"

text \<open>
  Modelled from the spec: \<^verbatim>\<open>Vec\<close> is declared in a missing header. \<^verbatim>\<open>bounds_check\<close>
  holds for the indices \<open>0 .. size - 1\<close>.
\<close>

definition bounds_check :: "'a list \<Rightarrow> int \<Rightarrow> bool" where
  "bounds_check v i = (0 \<le> i \<and> i < int (length v))"

definition TERMINATING_SOCKET_ERROR :: "errno \<Rightarrow> bool" where
  "TERMINATING_SOCKET_ERROR e = (e \<noteq> EAGAIN \<and> e \<noteq> EINTR)"

section \<open>UDP senders\<close>

definition o2n_send_udp_via_socket ::
  "env \<Rightarrow> int \<Rightarrow> sockaddr_in \<Rightarrow> o2n_message \<Rightarrow> net \<Rightarrow> O2err \<times> net" where
  "o2n_send_udp_via_socket E socket ua msg s =
     (let err = fst (sys_sendto E (clock s));
          s1 = s\<lparr>clock := Suc (clock s),
                 sendto_calls := sendto_calls s @
                   [(socket, ua, take (nat (msg_length msg)) (payload msg))]\<rparr>;
          s2 = s1\<lparr>freed := freed s1 @ [msg]\<rparr>
      in if err < 0
         then (O2_FAIL, s2\<lparr>diag := diag s2 @
                 [''error sending udp to port'', ''o2n_send_udp_via_socket'']\<rparr>)
         else (O2_SUCCESS, s2))"

definition o2n_send_udp :: "env \<Rightarrow> sockaddr_in \<Rightarrow> o2n_message \<Rightarrow> net \<Rightarrow> O2err \<times> net" where
  "o2n_send_udp E ua msg s = o2n_send_udp_via_socket E (o2n_udp_send_sock s) ua msg s"

text \<open>
  \<^verbatim>\<open>local_to_addr.sin_port = port\<close> stores an \<^verbatim>\<open>int\<close> in the 16-bit port field.
\<close>

definition o2n_send_udp_local :: "env \<Rightarrow> int \<Rightarrow> o2n_message \<Rightarrow> net \<Rightarrow> net" where
  "o2n_send_udp_local E port_num msg s =
     (let s1 = s\<lparr>local_to_addr := (local_to_addr s)\<lparr>sin_port := word_of_int port_num\<rparr>\<rparr>;
          err = fst (sys_sendto E (clock s1));
          s2 = s1\<lparr>clock := Suc (clock s1),
                  sendto_calls := sendto_calls s1 @
                    [(o2n_udp_send_sock s1, local_to_addr s1,
                      take (nat (msg_length msg)) (payload msg))]\<rparr>;
          s3 = (if err < 0
                then s2\<lparr>diag := diag s2 @ [''Error attempting to send udp message locally'']\<rparr>
                else s2)
      in s3\<lparr>freed := freed s3 @ [msg]\<rparr>)"

text \<open>
  \<^verbatim>\<open>o2n_send_broadcast\<close> returns what \<^verbatim>\<open>sendto\<close> returned. Its comment says
  "msg is owned by caller", and it has no \<^verbatim>\<open>O2_FREE\<close>.
  Modelled from the spec: \<^verbatim>\<open>Net_address::set_port\<close> is in a missing header; it stores
  the caller's port in the fixed broadcast address. \<^verbatim>\<open>sin_port\<close> is a 16-bit field: the
  assignment of an \<^verbatim>\<open>int\<close> keeps its low 16 bits.
\<close>

definition o2n_send_broadcast :: "env \<Rightarrow> int \<Rightarrow> o2n_message \<Rightarrow> net \<Rightarrow> int \<times> net" where
  "o2n_send_broadcast E port_num msg s =
     (let s1 = s\<lparr>o2n_broadcast_to_addr :=
                   (o2n_broadcast_to_addr s)\<lparr>sin_port := word_of_int port_num\<rparr>\<rparr>;
          err = fst (sys_sendto E (clock s1));
          s2 = s1\<lparr>clock := Suc (clock s1),
                  sendto_calls := sendto_calls s1 @
                    [(o2n_broadcast_sock s1, o2n_broadcast_to_addr s1,
                      take (nat (msg_length msg)) (payload msg))]\<rparr>
      in if err < 0
         then (err, s2\<lparr>diag := diag s2 @
                 [''Error attempting to broadcast discovery message'']\<rparr>)
         else (err, s2))"

section \<open>Registration and closing\<close>

text \<open>
  The constructor: \<^verbatim>\<open>new Fds_info(sock, net_tag, port)\<close>. The object is allocated at
  \<open>next_addr\<close>, appended to \<^verbatim>\<open>o2n_fds_info\<close>, and a poll descriptor for the socket is
  appended to \<^verbatim>\<open>o2n_fds\<close>.
\<close>

definition Fds_info_new :: "int \<Rightarrow> net_tag \<Rightarrow> int \<Rightarrow> net \<Rightarrow> error + addr \<times> net" where
  "Fds_info_new sock net_tag' port' s =
     (let this = next_addr s;
          fi = \<lparr>net_tag = net_tag', fds_index = int (length (o2n_fds s)),
                delete_me = False, raw_flag = False, in_length = 0,
                in_message = None, in_length_got = 0, in_msg_got = 0,
                out_message = [], out_msg_sent = 0, port = port', owner = None\<rparr>;
          s1 = s\<lparr>heap := (heap s)(this \<mapsto> fi), next_addr := Suc this,
                 o2n_fds_info := o2n_fds_info s @ [this]\<rparr>
      in if sock = INVALID_SOCKET then Inl AssertionFailed
         else Inr (this, s1\<lparr>o2n_fds := o2n_fds s1 @
                     [\<lparr>fd = sock, events = POLLIN, revents = 0\<rparr>]\<rparr>))"

definition close_socket :: "addr \<Rightarrow> net \<Rightarrow> error + net" where
  "close_socket this s =
     (case heap s this of
        None \<Rightarrow> Inl InvalidAccess
      | Some fi \<Rightarrow>
          (let s1 = (case in_message fi of
                       None \<Rightarrow> s
                     | Some m \<Rightarrow> s\<lparr>freed := freed s @ [m]\<rparr>);
               s2 = s1\<lparr>freed := freed s1 @ out_message fi\<rparr>;
               fi1 = fi\<lparr>in_message := None, out_message := []\<rparr>
           in if \<not> bounds_check (o2n_fds s2) (fds_index fi1) then Inl InvalidAccess
              else
                (let i = nat (fds_index fi1);
                     pfd = o2n_fds s2 ! i;
                     sock = fd pfd;
                     s3 = (if sock \<noteq> INVALID_SOCKET
                           then s2\<lparr>closed := closed s2 @ [sock],
                                   o2n_fds := (o2n_fds s2)[i := pfd\<lparr>fd := INVALID_SOCKET\<rparr>]\<rparr>
                           else s2);
                     fi2 = (if sock \<noteq> INVALID_SOCKET
                            then fi1\<lparr>net_tag := NET_INFO_CLOSED\<rparr>
                            else fi1)
                 in if \<not> (net_tag fi2 = NET_INFO_CLOSED \<and>
                           fd (o2n_fds s3 ! i) = INVALID_SOCKET)
                    then Inl AssertionFailed
                    else Inr (s3\<lparr>heap := (heap s3)(this \<mapsto> fi2\<lparr>delete_me := True\<rparr>),
                                o2n_socket_delete_flag := True\<rparr>))))"

definition get_socket :: "addr \<Rightarrow> net \<Rightarrow> error + int" where
  "get_socket this s =
     (case heap s this of
        None \<Rightarrow> Inl InvalidAccess
      | Some fi \<Rightarrow>
          if bounds_check (o2n_fds s) (fds_index fi)
          then Inr (fd (o2n_fds s ! nat (fds_index fi)))
          else Inl InvalidAccess)"

section \<open>Removal and the deferred sweep\<close>

text \<open>
  \<^verbatim>\<open>owner->remove()\<close>: the call is logged, then the owner closes the connections that
  \<open>on_remove\<close> names, one \<^verbatim>\<open>close_socket\<close> after the other.
\<close>

fun close_all :: "addr list \<Rightarrow> net \<Rightarrow> error + net" where
  "close_all [] s = Inr s"
| "close_all (a # as) s =
     (case close_socket a s of Inl e \<Rightarrow> Inl e | Inr s' \<Rightarrow> close_all as s')"

definition owner_remove :: "env \<Rightarrow> owner \<Rightarrow> net \<Rightarrow> error + net" where
  "owner_remove E ow s =
     (let s1 = s\<lparr>calls := calls s @ [Removed ow]\<rparr>
      in close_all (on_remove E ow s1) s1)"

text \<open>
  The destructor \<^verbatim>\<open>Fds_info::~Fds_info()\<close>. It reads \<^verbatim>\<open>fds_index\<close>, \<^verbatim>\<open>net_tag\<close> and
  \<^verbatim>\<open>owner\<close> of the object it runs on; the last descriptor and the last pointer are
  moved to that index and the moved object is re-stamped; both vectors are popped.
  Modelled from the spec: \<^verbatim>\<open>Vec::last\<close> and \<^verbatim>\<open>Vec::pop_back\<close> (missing header) on an
  empty vector are invalid accesses.
\<close>

definition Fds_info_dtor :: "env \<Rightarrow> addr \<Rightarrow> net \<Rightarrow> error + net" where
  "Fds_info_dtor E this s =
     (case heap s this of
        None \<Rightarrow> Inl InvalidAccess
      | Some fi \<Rightarrow>
          (if \<not> bounds_check (o2n_fds s) (fds_index fi) then Inl AssertionFailed
           else
             (let i = nat (fds_index fi);
                  moved =
                    (if int (length (o2n_fds s)) > fds_index fi + 1
                     then
                       (if o2n_fds_info s = [] \<or>
                           \<not> bounds_check (o2n_fds_info s) (fds_index fi)
                        then Inl InvalidAccess
                        else
                          (let replace = last (o2n_fds_info s)
                           in (case heap s replace of
                                 None \<Rightarrow> Inl InvalidAccess
                               | Some r \<Rightarrow>
                                   Inr (s\<lparr>o2n_fds := (o2n_fds s)[i := last (o2n_fds s)],
                                          o2n_fds_info := (o2n_fds_info s)[i := replace],
                                          heap := (heap s)
                                            (replace \<mapsto> r\<lparr>fds_index := fds_index fi\<rparr>)\<rparr>))))
                     else Inr s)
              in (case moved of
                    Inl e \<Rightarrow> Inl e
                  | Inr s1 \<Rightarrow>
                      (if o2n_fds s1 = [] \<or> o2n_fds_info s1 = [] then Inl InvalidAccess
                       else
                         (let s2 = s1\<lparr>o2n_fds := butlast (o2n_fds s1),
                                       o2n_fds_info := butlast (o2n_fds_info s1)\<rparr>
                          in if net_tag fi \<noteq> NET_INFO_CLOSED then Inl AssertionFailed
                             else (case owner fi of
                                     None \<Rightarrow> Inr s2
                                   | Some ow \<Rightarrow> owner_remove E ow s2)))))))"

text \<open>\<^verbatim>\<open>delete fi\<close>: the destructor runs, then the object is deallocated.\<close>

definition delete_Fds_info :: "env \<Rightarrow> addr \<Rightarrow> net \<Rightarrow> error + net" where
  "delete_Fds_info E this s =
     (case Fds_info_dtor E this s of
        Inl e \<Rightarrow> Inl e
      | Inr s' \<Rightarrow> Inr (s'\<lparr>heap := (heap s')(this := None)\<rparr>))"

section \<open>Byte order\<close>

text \<open>
  The host is little-endian (x86, ARM): \<open>mem_bytes\<close> are the four bytes of a 32-bit
  object in memory order, \<open>of_mem\<close> reads such bytes back, and \<^verbatim>\<open>htonl\<close> swaps them.
  On the wire the length prefix is therefore the big-endian encoding of the length.
\<close>

fun of_mem :: "byte list \<Rightarrow> 32 word" where
  "of_mem [] = 0"
| "of_mem (b # bs) = ucast b OR push_bit 8 (of_mem bs)"

definition mem_bytes :: "32 word \<Rightarrow> byte list" where
  "mem_bytes w = [ucast w, ucast (drop_bit 8 w), ucast (drop_bit 16 w), ucast (drop_bit 24 w)]"

definition htonl :: "32 word \<Rightarrow> 32 word" where
  "htonl w = of_mem (rev (mem_bytes w))"

lemma of_mem_mem_bytes: "of_mem (mem_bytes w) = w"
proof (rule bit_word_eqI)
  fix n assume "n < LENGTH(32)"
  then consider "n < 8" | "8 \<le> n \<and> n < 16" | "16 \<le> n \<and> n < 24" | "24 \<le> n \<and> n < 32"
    by fastforce
  then show "bit (of_mem (mem_bytes w)) n = bit w n"
  proof cases
    case 1
    then show ?thesis by (simp add: mem_bytes_def bit_simps)
  next
    case 2
    then have "8 + (n - 8) = n" by simp
    with 2 show ?thesis by (auto simp: mem_bytes_def bit_simps)
  next
    case 3
    then have "16 + (n - 16) = n" "8 + (n - 8 - 8) = n - 8" "8 + (n - 8) = n" by simp_all
    with 3 show ?thesis by (auto simp: mem_bytes_def bit_simps)
  next
    case 4
    then have "24 + (n - 24) = n" "8 + (n - 8 - 8 - 8) = n - 16" "8 + (n - 8 - 8) = n - 8"
        "8 + (n - 8) = n" "n - 8 - 8 - 8 = n - 24"
      by simp_all
    with 4 show ?thesis by (auto simp: mem_bytes_def bit_simps)
  qed
qed

lemma mem_bytes_of_mem: "mem_bytes (of_mem [b0, b1, b2, b3]) = [b0, b1, b2, b3]"
  apply (simp add: mem_bytes_def)
  apply (intro conjI; rule bit_word_eqI)
  apply (auto simp: bit_simps dest: bit_imp_le_length)
  done

lemma rev_mem_bytes:
  "rev (mem_bytes w) = [ucast (drop_bit 24 w), ucast (drop_bit 16 w), ucast (drop_bit 8 w), ucast w]"
  by (simp add: mem_bytes_def)

lemma mem_bytes_htonl: "mem_bytes (htonl w) = rev (mem_bytes w)"
  unfolding htonl_def rev_mem_bytes by (rule mem_bytes_of_mem)

lemma htonl_htonl: "htonl (htonl w) = w"
proof -
  have "htonl (htonl w) = of_mem (rev (mem_bytes (htonl w)))" by (simp only: htonl_def)
  also have "\<dots> = of_mem (mem_bytes w)" by (simp only: mem_bytes_htonl rev_rev_ident)
  finally show ?thesis by (simp only: of_mem_mem_bytes)
qed

lemma length_mem_bytes [simp]: "length (mem_bytes w) = 4"
  by (simp add: mem_bytes_def)


section \<open>Sending\<close>

text \<open>\<^verbatim>\<open>pfd->events |= POLLOUT\<close> and \<^verbatim>\<open>pfd->events &= ~POLLOUT\<close> on descriptor \<open>k\<close>.\<close>

definition set_POLLOUT :: "nat \<Rightarrow> net \<Rightarrow> net" where
  "set_POLLOUT k s =
     s\<lparr>o2n_fds := (o2n_fds s)[k := (o2n_fds s ! k)\<lparr>events := events (o2n_fds s ! k) OR POLLOUT\<rparr>]\<rparr>"

definition clear_POLLOUT :: "nat \<Rightarrow> net \<Rightarrow> net" where
  "clear_POLLOUT k s =
     s\<lparr>o2n_fds := (o2n_fds s)[k := (o2n_fds s ! k)\<lparr>events := events (o2n_fds s ! k) AND NOT POLLOUT\<rparr>]\<rparr>"

text \<open>
  The memory that \<^verbatim>\<open>send\<close> passes to the system call starts at \<^verbatim>\<open>&msg->length\<close>
  (at \<^verbatim>\<open>msg->payload\<close> in raw mode): the length field, byte-swapped by \<^verbatim>\<open>htonl\<close> for
  the duration of the call, and the payload behind it.
\<close>

definition send_image :: "Fds_info \<Rightarrow> o2n_message \<Rightarrow> byte list" where
  "send_image fi msg =
     (if raw_flag fi then payload msg
      else mem_bytes (htonl (word_of_int (msg_length msg))) @ payload msg)"

text \<open>The number of bytes \<^verbatim>\<open>n\<close> that one iteration of the send loop offers.\<close>

definition send_size :: "Fds_info \<Rightarrow> o2n_message \<Rightarrow> int" where
  "send_size fi msg =
     (if raw_flag fi then msg_length msg - out_msg_sent fi
      else msg_length msg + 4 - out_msg_sent fi)"

text \<open>
  One iteration of the loop \<^verbatim>\<open>while ((msg = out_message))\<close> of \<^verbatim>\<open>Fds_info::send\<close>:
  it either ends the function with a result (\<open>Return\<close>) or leaves the state for the
  next iteration (\<open>Again\<close>). \<open>k\<close> is the index of the descriptor that \<^verbatim>\<open>pfd\<close> points
  to. The bytes that the system call accepts go to \<open>wire\<close>.
\<close>

datatype step = Return "error + O2err \<times> net" | Again net

definition send_iter :: "env \<Rightarrow> bool \<Rightarrow> addr \<Rightarrow> nat \<Rightarrow> net \<Rightarrow> step" where
  "send_iter E block this k s =
     (case heap s this of
        None \<Rightarrow> Return (Inl InvalidAccess)
      | Some fi \<Rightarrow>
          (case out_message fi of
             [] \<Rightarrow> Return (Inr (O2_SUCCESS, s))
           | msg # next \<Rightarrow>
               (let n = send_size fi msg;
                    buf = take (nat n) (drop (nat (out_msg_sent fi)) (send_image fi msg));
                    err = fst (sys_send E (clock s) n);
                    eno = snd (sys_send E (clock s) n);
                    s1 = s\<lparr>clock := Suc (clock s)\<rparr>;
                    s2 = s1\<lparr>wire := (wire s1)
                                 (fd (o2n_fds s1 ! k) :=
                                    wire s1 (fd (o2n_fds s1 ! k)) @ take (nat err) buf)\<rparr>;
                    fi2 = fi\<lparr>out_msg_sent := out_msg_sent fi + err\<rparr>
                in if err < 0
                   then
                     (if \<not> block \<and> \<not> TERMINATING_SOCKET_ERROR eno
                      then Return (Inr (O2_BLOCKED, set_POLLOUT k s1))
                      else if TERMINATING_SOCKET_ERROR eno
                      then Return (case close_socket this s1 of
                                     Inl e \<Rightarrow> Inl e
                                   | Inr s3 \<Rightarrow> Inr (O2_FAIL, s3))
                      else Again s1)
                   else if err \<ge> n
                   then
                     (if err \<noteq> n then Return (Inl AssertionFailed)
                      else Again (s2\<lparr>heap := (heap s2)
                                      (this \<mapsto> fi2\<lparr>out_msg_sent := 0, out_message := next\<rparr>),
                                    freed := freed s2 @ [msg]\<rparr>))
                   else if \<not> block
                   then Return (Inr (O2_BLOCKED,
                                  set_POLLOUT k (s2\<lparr>heap := (heap s2)(this \<mapsto> fi2)\<rparr>)))
                   else Again (s2\<lparr>heap := (heap s2)(this \<mapsto> fi2)\<rparr>))))"

text \<open>
  The loop. With \<open>block\<close> it retries after EINTR, EAGAIN and partial writes and may
  run forever: the result \<open>None\<close> is "does not return".
\<close>

partial_function (option) send_loop ::
  "env \<Rightarrow> bool \<Rightarrow> addr \<Rightarrow> nat \<Rightarrow> net \<Rightarrow> (error + O2err \<times> net) option" where
  "send_loop E block this k s =
     (case send_iter E block this k s of
        Return r \<Rightarrow> Some r
      | Again s' \<Rightarrow> send_loop E block this k s')"

text \<open>
  The \<^verbatim>\<open>select\<close> loop of a blocking send on a connecting socket: \<open>True\<close> when
  \<^verbatim>\<open>select\<close> returned 1, \<open>False\<close> on an error other than EINTR.
\<close>

partial_function (option) wait_writable :: "env \<Rightarrow> net \<Rightarrow> (bool \<times> net) option" where
  "wait_writable E s =
     (let total = fst (sys_select E (clock s));
          eno = snd (sys_select E (clock s));
          s1 = s\<lparr>clock := Suc (clock s)\<rparr>
      in if total \<noteq> 1
         then (if total < 0 \<and> eno \<noteq> EINTR then Some (False, s1)
               else wait_writable E s1)
         else Some (True, s1))"

definition send :: "env \<Rightarrow> bool \<Rightarrow> addr \<Rightarrow> net \<Rightarrow> (error + O2err \<times> net) option" where
  "send E block this s =
     (case heap s this of
        None \<Rightarrow> Some (Inl InvalidAccess)
      | Some fi \<Rightarrow>
          (if net_tag fi = NET_INFO_CLOSED then Some (Inr (O2_FAIL, s))
           else if \<not> bounds_check (o2n_fds s) (fds_index fi) then Some (Inl InvalidAccess)
           else
             (let k = nat (fds_index fi)
              in if net_tag fi = NET_TCP_CONNECTING \<and> block
                 then
                   (case wait_writable E s of
                      None \<Rightarrow> None
                    | Some (ok, s1) \<Rightarrow>
                        (if \<not> ok then Some (Inr (O2_SOCKET_ERROR, s1))
                         else
                           (let socket_error = sys_so_error E (clock s1);
                                s2 = s1\<lparr>clock := Suc (clock s1)\<rparr>
                            in if socket_error \<noteq> 0 then Some (Inr (O2_SOCKET_ERROR, s2))
                               else send_loop E block this k
                                      (s2\<lparr>heap := (heap s2)
                                             (this \<mapsto> fi\<lparr>net_tag := NET_TCP_CLIENT\<rparr>)\<rparr>))))
                 else send_loop E block this k s)))"

text \<open>\<^verbatim>\<open>Fds_info::enqueue\<close>; the result of \<^verbatim>\<open>send(false)\<close> is dropped.\<close>

definition enqueue :: "env \<Rightarrow> addr \<Rightarrow> o2n_message \<Rightarrow> net \<Rightarrow> (error + net) option" where
  "enqueue E this msg s =
     (case heap s this of
        None \<Rightarrow> Some (Inl InvalidAccess)
      | Some fi \<Rightarrow>
          (if out_message fi = [] \<and> net_tag fi \<noteq> NET_TCP_CONNECTING
           then
             (case send E False this
                     (s\<lparr>heap := (heap s)(this \<mapsto> fi\<lparr>out_message := [msg], out_msg_sent := 0\<rparr>)\<rparr>) of
                None \<Rightarrow> None
              | Some (Inl e) \<Rightarrow> Some (Inl e)
              | Some (Inr (rslt, s')) \<Rightarrow> Some (Inr s'))
           else Some (Inr (s\<lparr>heap := (heap s)
                              (this \<mapsto> fi\<lparr>out_message := out_message fi @ [msg]\<rparr>)\<rparr>))))"

text \<open>\<^verbatim>\<open>Fds_info::send_tcp\<close>.\<close>

definition send_tcp ::
  "env \<Rightarrow> addr \<Rightarrow> bool \<Rightarrow> o2n_message \<Rightarrow> net \<Rightarrow> (error + O2err \<times> net) option" where
  "send_tcp E this block msg s =
     (case heap s this of
        None \<Rightarrow> Some (Inl InvalidAccess)
      | Some fi \<Rightarrow>
          (case (if out_message fi \<noteq> [] \<and> block then send E True this s
                 else Some (Inr (O2_SUCCESS, s))) of
             None \<Rightarrow> None
           | Some (Inl e) \<Rightarrow> Some (Inl e)
           | Some (Inr (rslt, s1)) \<Rightarrow>
               (if rslt \<noteq> O2_SUCCESS
                then Some (Inr (rslt, s1\<lparr>freed := freed s1 @ [msg]\<rparr>))
                else (case enqueue E this msg s1 of
                        None \<Rightarrow> None
                      | Some (Inl e) \<Rightarrow> Some (Inl e)
                      | Some (Inr s2) \<Rightarrow> Some (Inr (O2_SUCCESS, s2))))))"

section \<open>Receiving\<close>

text \<open>
  Results that may be "does not return" are of type \<open>(error + 'a) option\<close>;
  \<open>rbind\<close> runs the continuation on a normal result.
\<close>

definition rbind ::
  "(error + 'a) option \<Rightarrow> ('a \<Rightarrow> (error + 'b) option) \<Rightarrow> (error + 'b) option" where
  "rbind m f = (case m of None \<Rightarrow> None | Some (Inl e) \<Rightarrow> Some (Inl e) | Some (Inr x) \<Rightarrow> f x)"

lemma rbind_simps [simp]:
  "rbind None f = None"
  "rbind (Some (Inl e)) f = Some (Inl e)"
  "rbind (Some (Inr x)) f = f x"
  by (simp_all add: rbind_def)

lemma rbind_cong [fundef_cong]:
  "m = m' \<Longrightarrow> (\<And>x. m' = Some (Inr x) \<Longrightarrow> f x = f' x) \<Longrightarrow> rbind m f = rbind m' f'"
  by (auto simp: rbind_def split: option.splits sum.splits)

text \<open>
  \<open>overwrite buf off bs\<close> is the buffer after the bytes \<open>bs\<close> were stored at offset
  \<open>off\<close>. Modelled from the spec: \<^verbatim>\<open>O2N_MESSAGE_ALLOC\<close> is a macro of a missing header;
  it allocates a message whose payload has room for the given size. The bytes of fresh
  memory are unspecified in C; the model takes zeros.
\<close>

definition overwrite :: "'a list \<Rightarrow> nat \<Rightarrow> 'a list \<Rightarrow> 'a list" where
  "overwrite buf off bs = take off buf @ take (length buf - off) bs @ drop (off + length bs) buf"

definition O2N_MESSAGE_ALLOC :: "int \<Rightarrow> o2n_message" where
  "O2N_MESSAGE_ALLOC sz = \<lparr>msg_length = 0, payload = replicate (nat sz) 0\<rparr>"

definition o2n_message_new :: "int \<Rightarrow> o2n_message" where
  "o2n_message_new sz = (O2N_MESSAGE_ALLOC sz)\<lparr>msg_length := sz\<rparr>"

text \<open>
  \<^verbatim>\<open>recvfrom\<close> with flags 0 on a TCP socket. When bytes have arrived, it returns at
  most \<open>want\<close> of them. When none has, a socket with \<^verbatim>\<open>O_NONBLOCK\<close> answers at once:
  the environment decides between 0 (the peer has closed) and -1 with an \<^verbatim>\<open>errno\<close>
  (EAGAIN when there is simply nothing to read). A socket in blocking mode waits: the
  call returns when bytes arrive or the wait fails, and does not return (\<open>None\<close>) when
  nothing ever arrives.
\<close>

definition recvfrom ::
  "env \<Rightarrow> int \<Rightarrow> int \<Rightarrow> net \<Rightarrow> ((int \<times> errno \<times> byte list) \<times> net) option" where
  "recvfrom E sock want s =
     (let s1 = s\<lparr>clock := Suc (clock s)\<rparr>
      in if rx s sock \<noteq> []
         then Some ((int (length (take (nat want) (rx s sock))), EAGAIN,
                     take (nat want) (rx s sock)),
                    s1\<lparr>rx := (rx s1)(sock := drop (nat want) (rx s sock))\<rparr>)
         else if nonblock s sock
         then Some ((if fst (sys_recv_empty E (clock s)) < 0 then - 1 else 0,
                     snd (sys_recv_empty E (clock s)), []), s1)
         else (case sys_recv_wait E (clock s) of
                 Forever \<Rightarrow> None
               | RecvFails e \<Rightarrow> Some ((- 1, e, []), s1)
               | Arrives bs \<Rightarrow>
                   Some ((int (length (take (nat want) bs)), EAGAIN, take (nat want) bs),
                         s1\<lparr>rx := (rx s1)(sock := drop (nat want) bs)\<rparr>)))"

definition message_cleanup :: "Fds_info \<Rightarrow> Fds_info" where
  "message_cleanup fi = fi\<lparr>in_message := None, in_msg_got := 0, in_length := 0, in_length_got := 0\<rparr>"

text \<open>
  The label \<^verbatim>\<open>error_exit\<close> of \<^verbatim>\<open>read_whole_message\<close>. \<open>fi\<close> is the object as the
  function has updated it so far.
\<close>

definition error_exit :: "addr \<Rightarrow> Fds_info \<Rightarrow> int \<Rightarrow> errno \<Rightarrow> net \<Rightarrow> error + O2err \<times> net" where
  "error_exit this fi n eno s =
     (if n = 0
      then Inr (O2_TCP_HUP, s\<lparr>heap := (heap s)(this \<mapsto> message_cleanup fi)\<rparr>)
      else if n < 0 \<and> TERMINATING_SOCKET_ERROR eno
      then
        (let s1 = s\<lparr>diag := diag s @ [''recvfrom in read_whole_message'']\<rparr>;
             s2 = (case in_message fi of
                     None \<Rightarrow> s1
                   | Some m \<Rightarrow> s1\<lparr>freed := freed s1 @ [m]\<rparr>)
         in Inr (O2_TCP_HUP, s2\<lparr>heap := (heap s2)(this \<mapsto> message_cleanup fi)\<rparr>))
      else Inr (O2_FAIL, s\<lparr>heap := (heap s)(this \<mapsto> fi)\<rparr>))"

text \<open>
  The second phase of \<^verbatim>\<open>read_whole_message\<close>: the statements from
  \<^verbatim>\<open>if (in_msg_got < in_length)\<close> to \<^verbatim>\<open>return O2_SUCCESS\<close>.
\<close>

definition read_payload ::
  "env \<Rightarrow> addr \<Rightarrow> int \<Rightarrow> Fds_info \<Rightarrow> net \<Rightarrow> (error + O2err \<times> net) option" where
  "read_payload E this sock fi s =
     (if in_msg_got fi < sint (in_length fi)
      then
        (case in_message fi of
           None \<Rightarrow> Some (Inl InvalidAccess)
         | Some m \<Rightarrow>
             (case recvfrom E sock (sint (in_length fi) - in_msg_got fi) s of
                None \<Rightarrow> None
              | Some ((n, eno, bs), s1) \<Rightarrow>
                  if n \<le> 0 then Some (error_exit this fi n eno s1)
                  else
                    (let fi1 = fi\<lparr>in_message :=
                                   Some (m\<lparr>payload := overwrite (payload m) (nat (in_msg_got fi)) bs\<rparr>),
                                 in_msg_got := in_msg_got fi + n\<rparr>
                     in if in_msg_got fi1 < sint (in_length fi1)
                        then Some (Inr (O2_FAIL, s1\<lparr>heap := (heap s1)(this \<mapsto> fi1)\<rparr>))
                        else Some (Inr (O2_SUCCESS, s1\<lparr>heap := (heap s1)
                               (this \<mapsto> fi1\<lparr>in_message :=
                                  Some (m\<lparr>payload := overwrite (payload m) (nat (in_msg_got fi)) bs,
                                          msg_length := sint (in_length fi1)\<rparr>)\<rparr>)\<rparr>)))))
      else
        (case in_message fi of
           None \<Rightarrow> Some (Inl InvalidAccess)
         | Some m \<Rightarrow>
             Some (Inr (O2_SUCCESS, s\<lparr>heap := (heap s)
                    (this \<mapsto> fi\<lparr>in_message := Some (m\<lparr>msg_length := sint (in_length fi)\<rparr>)\<rparr>)\<rparr>))))"

text \<open>
  \<^verbatim>\<open>read_whole_message\<close>. The result is \<open>None\<close> when a \<^verbatim>\<open>recvfrom\<close> of the function does
  not return.
\<close>

definition read_whole_message ::
  "env \<Rightarrow> addr \<Rightarrow> int \<Rightarrow> net \<Rightarrow> (error + O2err \<times> net) option" where
  "read_whole_message E this sock s =
     (case heap s this of
        None \<Rightarrow> Some (Inl InvalidAccess)
      | Some fi \<Rightarrow>
          (if \<not> in_length_got fi < 5 then Some (Inl AssertionFailed)
           else if raw_flag fi
           then
             (if \<not> (net_tag fi = NET_TCP_SERVER \<or> net_tag fi = NET_TCP_CLIENT)
              then Some (Inl AssertionFailed)
              else
                (let m = O2N_MESSAGE_ALLOC 512;
                     fi1 = fi\<lparr>in_message := Some m\<rparr>
                 in (case recvfrom E sock 512 s of
                       None \<Rightarrow> None
                     | Some ((n, eno, bs), s1) \<Rightarrow>
                         if n < 0 then Some (error_exit this fi1 n eno s1)
                         else Some (Inr (O2_SUCCESS, s1\<lparr>heap := (heap s1)
                                (this \<mapsto> fi1\<lparr>in_message :=
                                   Some (m\<lparr>payload := overwrite (payload m) 0 bs,
                                           msg_length := n\<rparr>)\<rparr>)\<rparr>)))))
           else if in_length_got fi < 4
           then
             (case recvfrom E sock (4 - in_length_got fi) s of
                None \<Rightarrow> None
              | Some ((n, eno, bs), s1) \<Rightarrow>
                  if n \<le> 0 then Some (error_exit this fi n eno s1)
                  else
                    (let fi1 = fi\<lparr>in_length := of_mem (overwrite (mem_bytes (in_length fi))
                                                 (nat (in_length_got fi)) bs),
                                 in_length_got := in_length_got fi + n\<rparr>
                     in if \<not> in_length_got fi1 < 5 then Some (Inl AssertionFailed)
                        else if in_length_got fi1 < 4
                        then Some (Inr (O2_FAIL, s1\<lparr>heap := (heap s1)(this \<mapsto> fi1)\<rparr>))
                        else
                          (let fi2 = fi1\<lparr>in_length := htonl (in_length fi1)\<rparr>
                           in if in_message fi2 \<noteq> None then Some (Inl AssertionFailed)
                              else read_payload E this sock
                                     (fi2\<lparr>in_message := Some (o2n_message_new (sint (in_length fi2))),
                                          in_msg_got := 0\<rparr>) s1)))
           else read_payload E this sock fi s))"


text \<open>
  \<^verbatim>\<open>recvfrom\<close> on a UDP socket returns the next datagram, cut to \<open>len\<close> bytes.
\<close>

definition recvfrom_udp :: "env \<Rightarrow> int \<Rightarrow> int \<Rightarrow> net \<Rightarrow> (int \<times> byte list) \<times> net" where
  "recvfrom_udp E sock len s =
     (let s1 = s\<lparr>clock := Suc (clock s)\<rparr>
      in (case udp_rx s sock of
            [] \<Rightarrow> ((if fst (sys_recv_empty E (clock s)) < 0 then - 1 else 0, []), s1)
          | d # ds \<Rightarrow>
              ((int (length (take (nat len) d)), take (nat len) d),
               s1\<lparr>udp_rx := (udp_rx s1)(sock := ds)\<rparr>)))"

text \<open>
  The common code at the end of \<^verbatim>\<open>read_event_handler\<close>: the assembled message is
  handed to \<^verbatim>\<open>owner->deliver\<close> (logged; its status comes from the environment) or
  freed when there is no owner.
\<close>

definition deliver_common :: "env \<Rightarrow> addr \<Rightarrow> net \<Rightarrow> error + O2err \<times> net" where
  "deliver_common E this s =
     (case heap s this of
        None \<Rightarrow> Inl InvalidAccess
      | Some fi \<Rightarrow>
          (case in_message fi of
             None \<Rightarrow> Inl InvalidAccess
           | Some msg \<Rightarrow>
               (let s1 = s\<lparr>heap := (heap s)(this \<mapsto> message_cleanup fi)\<rparr>;
                    err = (case owner fi of None \<Rightarrow> O2_FAIL | Some ow \<Rightarrow> on_deliver E ow msg);
                    s2 = (case owner fi of
                            None \<Rightarrow> s1\<lparr>freed := freed s1 @ [msg]\<rparr>
                          | Some ow \<Rightarrow> s1\<lparr>calls := calls s1 @ [Delivered ow msg]\<rparr>)
                in if err \<noteq> O2_SUCCESS \<and>
                      (net_tag fi = NET_TCP_CONNECTING \<or> net_tag fi = NET_TCP_CLIENT \<or>
                       net_tag fi = NET_TCP_CONNECTION)
                   then (case close_socket this s2 of
                           Inl e \<Rightarrow> Inl e
                         | Inr s3 \<Rightarrow> Inr (O2_SUCCESS, s3))
                   else Inr (O2_SUCCESS, s2))))"

text \<open>
  \<^verbatim>\<open>read_event_handler\<close>. The descriptor that \<^verbatim>\<open>accept\<close> returns gets no \<^verbatim>\<open>fcntl\<close>: whether
  it has \<^verbatim>\<open>O_NONBLOCK\<close> is the system's choice. On systems derived from BSD it inherits
  the flag of the listening socket, on Linux it is always in blocking mode;
  \<open>accept_inherits\<close> tells which system the program runs on.
\<close>

definition read_event_handler ::
  "env \<Rightarrow> addr \<Rightarrow> int \<Rightarrow> net \<Rightarrow> (error + O2err \<times> net) option" where
  "read_event_handler E this sock s =
     (case heap s this of
        None \<Rightarrow> Some (Inl InvalidAccess)
      | Some fi \<Rightarrow>
          (if net_tag fi = NET_TCP_CONNECTION \<or> net_tag fi = NET_TCP_CLIENT
           then
             (case read_whole_message E this sock s of
                None \<Rightarrow> None
              | Some (Inl e) \<Rightarrow> Some (Inl e)
              | Some (Inr (n, s1)) \<Rightarrow>
                  if n = O2_FAIL then Some (Inr (O2_SUCCESS, s1))
                  else if n \<noteq> O2_SUCCESS then Some (Inr (n, s1))
                  else Some (deliver_common E this s1))
           else if net_tag fi = NET_UDP_SERVER
           then
             (let len = (case udp_rx s sock of [] \<Rightarrow> 0 | d # ds \<Rightarrow> int (length d));
                  s1 = s\<lparr>clock := Suc (clock s)\<rparr>
              in if sys_fionread E (clock s) = - 1
                 then Some (Inr (O2_FAIL, s1\<lparr>diag := diag s1 @ [''udp_recv_handler'']\<rparr>))
                 else if in_message fi \<noteq> None then Some (Inl AssertionFailed)
                 else
                   (case recvfrom_udp E sock len s1 of
                      ((n, bs), s2) \<Rightarrow>
                        if n \<le> 0
                        then Some (Inr (O2_FAIL,
                               s2\<lparr>diag := diag s2 @ [''recvfrom in udp_recv_handler''],
                                   freed := freed s2 @ [o2n_message_new len],
                                   heap := (heap s2)(this \<mapsto> fi\<lparr>in_message := None\<rparr>)\<rparr>))
                        else Some (deliver_common E this
                               (s2\<lparr>heap := (heap s2)
                                     (this \<mapsto> fi\<lparr>in_message :=
                                        Some \<lparr>msg_length = n,
                                              payload = overwrite (replicate (nat len) 0) 0 bs\<rparr>\<rparr>)\<rparr>))))
           else if net_tag fi = NET_TCP_SERVER
           then
             (let connection = sys_accept E (clock s);
                  s0 = s\<lparr>clock := Suc (clock s)\<rparr>
              in if connection = INVALID_SOCKET then Some (Inr (O2_FAIL, s0))
                 else
                   (let s1 = s0\<lparr>nonblock := (nonblock s0)
                                   (connection := accept_inherits E \<and> nonblock s0 sock)\<rparr>
                    in case Fds_info_new connection NET_TCP_CONNECTION 0 s1 of
                         Inl e \<Rightarrow> Some (Inl e)
                       | Inr (conn, s2) \<Rightarrow>
                           (case owner fi of
                              Some ow \<Rightarrow>
                                (case heap s2 conn of
                                   None \<Rightarrow> Some (Inl InvalidAccess)
                                 | Some c \<Rightarrow>
                                     Some (Inr (O2_SUCCESS,
                                       s2\<lparr>calls := calls s2 @ [Accepted ow conn],
                                           heap := (heap s2)(conn \<mapsto> c\<lparr>owner := on_accepted E ow\<rparr>)\<rparr>)))
                            | None \<Rightarrow>
                                (case close_socket conn s2 of
                                   Inl e \<Rightarrow> Some (Inl e)
                                 | Inr s3 \<Rightarrow> Some (Inr (O2_SUCCESS, s3))))))
           else Some (Inl AssertionFailed)))"

section \<open>The reactor tick\<close>

text \<open>The body of the \<^verbatim>\<open>for\<close> loop of \<^verbatim>\<open>o2n_recv\<close> for descriptor \<open>i\<close>.\<close>

definition has_flag :: "16 word \<Rightarrow> 16 word \<Rightarrow> bool" where
  "has_flag v f = (v AND f \<noteq> 0)"

definition dispatch :: "env \<Rightarrow> nat \<Rightarrow> net \<Rightarrow> (error + net) option" where
  "dispatch E i s =
     (if \<not> i < length (o2n_fds s) then Some (Inl InvalidAccess)
      else
        (let pfd = o2n_fds s ! i
         in if has_flag (revents pfd) POLLERR then Some (Inr s)
            else if \<not> i < length (o2n_fds_info s) then
              (if has_flag (revents pfd) POLLHUP \<or> has_flag (revents pfd) POLLOUT \<or>
                  has_flag (revents pfd) POLLIN
               then Some (Inl InvalidAccess) else Some (Inr s))
            else
              (let fi = o2n_fds_info s ! i
               in if has_flag (revents pfd) POLLHUP
                  then Some (case close_socket fi s of Inl e \<Rightarrow> Inl e | Inr s1 \<Rightarrow> Inr s1)
                  else if has_flag (revents pfd) POLLOUT
                  then
                    (case heap s fi of
                       None \<Rightarrow> Some (Inl InvalidAccess)
                     | Some obj \<Rightarrow>
                         (let s1 = (if net_tag obj = NET_TCP_CONNECTING
                                    then (let s0 = s\<lparr>heap := (heap s)
                                                (fi \<mapsto> obj\<lparr>net_tag := NET_TCP_CLIENT\<rparr>)\<rparr>
                                          in case owner obj of
                                               None \<Rightarrow> s0
                                             | Some ow \<Rightarrow> s0\<lparr>calls := calls s0 @ [Connected ow]\<rparr>)
                                    else s)
                          in if out_message obj \<noteq> []
                             then rbind (send E False fi s1)
                                    (\<lambda>(rslt, s2).
                                       if rslt = O2_SUCCESS
                                       then (if i < length (o2n_fds s2)
                                             then Some (Inr (clear_POLLOUT i s2))
                                             else Some (Inl InvalidAccess))
                                       else Some (Inr s2))
                             else Some (Inr (clear_POLLOUT i s1))))
                  else if has_flag (revents pfd) POLLIN
                  then
                    (case heap s fi of
                       None \<Rightarrow> Some (Inl InvalidAccess)
                     | Some obj \<Rightarrow>
                         (if \<not> in_length_got obj < 5 then Some (Inl AssertionFailed)
                          else
                            (case read_event_handler E fi (fd pfd) s of
                               None \<Rightarrow> None
                             | Some (Inl e) \<Rightarrow> Some (Inl e)
                             | Some (Inr (r, s1)) \<Rightarrow>
                                 if r \<noteq> O2_SUCCESS
                                 then Some (case close_socket fi s1 of
                                              Inl e \<Rightarrow> Inl e | Inr s2 \<Rightarrow> Inr s2)
                                 else Some (Inr s1))))
                  else Some (Inr s))))"

text \<open>
  \<^verbatim>\<open>poll\<close> with a zero timeout stores the ready events of every descriptor in
  \<^verbatim>\<open>revents\<close>; a descriptor with a negative fd is ignored and gets 0.
\<close>

definition poll :: "env \<Rightarrow> net \<Rightarrow> net" where
  "poll E s =
     s\<lparr>o2n_fds := map (\<lambda>(j, p). p\<lparr>revents := (if fd p < 0 then 0 else sys_poll E (clock s) j)\<rparr>)
                     (enumerate 0 (o2n_fds s)),
       clock := Suc (clock s)\<rparr>"

function dispatch_loop :: "env \<Rightarrow> nat \<Rightarrow> nat \<Rightarrow> net \<Rightarrow> (error + O2err \<times> net) option" where
  "dispatch_loop E i len s =
     (if i < len
      then rbind (dispatch E i s)
             (\<lambda>s1. if \<not> o2_ensemble_name s1 then Some (Inr (O2_FAIL, s1))
                   else dispatch_loop E (i + 1) len s1)
      else Some (Inr (O2_SUCCESS, s)))"
  by pat_completeness auto
termination
  by (relation "measure (\<lambda>(E, i, len, s). len - i)") auto

section \<open>Connecting\<close>

text \<open>
  \<^verbatim>\<open>Fds_info::cleanup\<close> pops both vectors and then runs \<^verbatim>\<open>delete this\<close>, that is the
  destructor above. \<^verbatim>\<open>create_tcp_client\<close> returns the new connection, or NULL (\<open>None\<close>).
\<close>

definition o2n_tcp_socket_new :: "env \<Rightarrow> net \<Rightarrow> int \<times> net" where
  "o2n_tcp_socket_new E s =
     (let sock = sys_socket E (clock s);
          s1 = s\<lparr>clock := Suc (clock s)\<rparr>
      in if sock = INVALID_SOCKET
         then (sock, s1\<lparr>diag := diag s1 @ [''tcp socket creation error'']\<rparr>)
         else (sock, s1\<lparr>nonblock := (nonblock s1)(sock := True)\<rparr>))"

definition cleanup :: "env \<Rightarrow> addr \<Rightarrow> string \<Rightarrow> int \<Rightarrow> net \<Rightarrow> error + addr option \<times> net" where
  "cleanup E this err sock s =
     (let s1 = s\<lparr>diag := diag s @ [err], closed := closed s @ [sock]\<rparr>
      in if o2n_fds_info s1 = [] \<or> o2n_fds s1 = [] then Inl InvalidAccess
         else
           (case delete_Fds_info E this
                   (s1\<lparr>o2n_fds_info := butlast (o2n_fds_info s1),
                       o2n_fds := butlast (o2n_fds s1)\<rparr>) of
              Inl e \<Rightarrow> Inl e
            | Inr s2 \<Rightarrow> Inr (None, s2)))"

definition create_tcp_client :: "env \<Rightarrow> sockaddr_in \<Rightarrow> net \<Rightarrow> error + addr option \<times> net" where
  "create_tcp_client E remote_addr s =
     (case o2n_tcp_socket_new E s of
        (sock, s1) \<Rightarrow>
          if sock = INVALID_SOCKET then Inr (None, s1)
          else
            (case Fds_info_new sock NET_TCP_CONNECTING 0 s1 of
               Inl e \<Rightarrow> Inl e
             | Inr (info, s2) \<Rightarrow>
                 (case heap s2 info of
                    None \<Rightarrow> Inl InvalidAccess
                  | Some fi \<Rightarrow>
                      (if \<not> bounds_check (o2n_fds s2) (fds_index fi) then Inl InvalidAccess
                       else
                         (let k = nat (fds_index fi);
                              rc = fst (sys_connect E (clock s2));
                              eno = snd (sys_connect E (clock s2));
                              s3 = s2\<lparr>clock := Suc (clock s2)\<rparr>
                          in if rc = - 1
                             then
                               (if eno \<noteq> EINPROGRESS
                                then cleanup E info ''connect error'' sock s3
                                else Inr (Some info, set_POLLOUT k s3))
                             else
                               (if \<not> bounds_check (o2n_fds_info s3) (fds_index fi)
                                then Inl InvalidAccess
                                else
                                  (case heap s3 (o2n_fds_info s3 ! k) of
                                     None \<Rightarrow> Inl InvalidAccess
                                   | Some r \<Rightarrow>
                                       Inr (Some info,
                                         s3\<lparr>heap := (heap s3)
                                              (o2n_fds_info s3 ! k \<mapsto>
                                                 r\<lparr>net_tag := NET_TCP_CLIENT\<rparr>)\<rparr>))))))))"

text \<open>
  The registry invariant of the two parallel vectors: equal length, every registered
  pointer is a live object stamped with its own position, and so
  \<^verbatim>\<open>Fds_info::get_socket\<close> of connection \<open>i\<close> is the socket of descriptor \<open>i\<close>.
\<close>

definition registry_inv :: "net \<Rightarrow> bool" where
  "registry_inv s =
     (length (o2n_fds s) = length (o2n_fds_info s) \<and>
      (\<forall>i < length (o2n_fds_info s).
         (\<exists>fi. heap s (o2n_fds_info s ! i) = Some fi \<and> fds_index fi = int i) \<and>
         get_socket (o2n_fds_info s ! i) s = Inr (fd (o2n_fds s ! i))))"

text \<open>
  What \<^verbatim>\<open>close_socket\<close> establishes and the assertions rely on: a registered
  connection whose descriptor is invalid, or that is marked for deletion, is CLOSED.
\<close>

definition closed_inv :: "net \<Rightarrow> bool" where
  "closed_inv s =
     (\<forall>i < length (o2n_fds_info s). \<forall>fi.
         heap s (o2n_fds_info s ! i) = Some fi \<longrightarrow>
         fd (o2n_fds s ! i) = INVALID_SOCKET \<or> delete_me fi \<longrightarrow>
         net_tag fi = NET_INFO_CLOSED)"

text \<open>
  The owners this theory covers: \<^verbatim>\<open>remove()\<close> closes only connections that are
  registered when it runs.
\<close>

definition hooks_ok :: "env \<Rightarrow> bool" where
  "hooks_ok E = (\<forall>ow s. set (on_remove E ow s) \<subseteq> set (o2n_fds_info s))"

text \<open>
  The process-wide flag covers the marks: whenever a registered connection is marked
  for deletion, \<^verbatim>\<open>o2n_socket_delete_flag\<close> is set (\<^verbatim>\<open>close_socket\<close> sets both).
\<close>

definition flag_inv :: "net \<Rightarrow> bool" where
  "flag_inv s =
     ((\<exists>i < length (o2n_fds_info s). \<exists>fi.
         heap s (o2n_fds_info s ! i) = Some fi \<and> delete_me fi) \<longrightarrow>
      o2n_socket_delete_flag s)"

text \<open>
  The allocator of the model hands out \<open>next_addr\<close>; no object lives at or above it.
\<close>

definition alloc_inv :: "net \<Rightarrow> bool" where
  "alloc_inv s = (\<forall>a. next_addr s \<le> a \<longrightarrow> heap s a = None)"

section \<open>Facts about closing and removal; the sweep\<close>

text \<open>
  \<open>close_effect\<close> is the state that \<^verbatim>\<open>close_socket\<close> returns, written out, and
  \<open>unregister\<close> the state of the destructor before it calls the owner. Both are
  derived from the definitions above (lemmas \<open>close_socket_eq\<close> and
  \<open>Fds_info_dtor_eq\<close>). The two loops of \<^verbatim>\<open>o2n_free_deleted_sockets\<close> follow, with
  their termination proofs: every deletion shortens the registry.
\<close>

lemma bounds_check_nat: "bounds_check v i \<Longrightarrow> nat i < length v"
  by (simp add: bounds_check_def nat_less_iff)

definition close_effect :: "addr \<Rightarrow> Fds_info \<Rightarrow> net \<Rightarrow> net" where
  "close_effect this fi s =
     (let i = nat (fds_index fi); sock = fd (o2n_fds s ! i)
      in s\<lparr>freed := freed s @ (case in_message fi of None \<Rightarrow> [] | Some m \<Rightarrow> [m]) @ out_message fi,
           closed := closed s @ (if sock \<noteq> INVALID_SOCKET then [sock] else []),
           o2n_fds := (o2n_fds s)[i := (o2n_fds s ! i)\<lparr>fd := INVALID_SOCKET\<rparr>],
           heap := (heap s)(this \<mapsto> fi\<lparr>in_message := None, out_message := [],
                      net_tag := NET_INFO_CLOSED, delete_me := True\<rparr>),
           o2n_socket_delete_flag := True\<rparr>)"

lemma pollfd_fd_same: "fd p = v \<Longrightarrow> p\<lparr>fd := v\<rparr> = p"
  by simp

lemma close_socket_eq:
  "close_socket this s =
     (case heap s this of
        None \<Rightarrow> Inl InvalidAccess
      | Some fi \<Rightarrow>
          if \<not> bounds_check (o2n_fds s) (fds_index fi) then Inl InvalidAccess
          else if fd (o2n_fds s ! nat (fds_index fi)) = INVALID_SOCKET \<and>
                  net_tag fi \<noteq> NET_INFO_CLOSED then Inl AssertionFailed
          else Inr (close_effect this fi s))"
proof (cases "heap s this")
  case None
  then show ?thesis by (simp add: close_socket_def)
next
  case (Some fi)
  show ?thesis
  proof (cases "bounds_check (o2n_fds s) (fds_index fi)")
    case False
    with Some show ?thesis
      by (simp add: close_socket_def Let_def split: option.splits)
  next
    case True
    note nlt = bounds_check_nat [OF True]
    show ?thesis
    proof (cases "fd (o2n_fds s ! nat (fds_index fi)) = INVALID_SOCKET")
      case inv: True
      have upd: "(o2n_fds s)[nat (fds_index fi) :=
                   (o2n_fds s ! nat (fds_index fi))\<lparr>fd := INVALID_SOCKET\<rparr>] = o2n_fds s"
        using inv by (simp add: pollfd_fd_same)
      show ?thesis
      proof (cases "net_tag fi = NET_INFO_CLOSED")
        case True
        have eq: "fi\<lparr>in_message := None, out_message := [], net_tag := NET_INFO_CLOSED, delete_me := True\<rparr>
            = fi\<lparr>in_message := None, out_message := [], delete_me := True\<rparr>"
          using True by simp
        from Some \<open>bounds_check (o2n_fds s) (fds_index fi)\<close> inv True upd show ?thesis
          by (cases "in_message fi")
             (simp_all add: close_socket_def Let_def close_effect_def eq)
      next
        case False
        with Some \<open>bounds_check (o2n_fds s) (fds_index fi)\<close> inv show ?thesis
          by (simp add: close_socket_def Let_def split: option.splits)
      qed
    next
      case False
      with Some True nlt show ?thesis
        by (cases "in_message fi")
           (simp_all add: close_socket_def Let_def close_effect_def)
    qed
  qed
qed


lemma close_socket_InrD:
  assumes "close_socket this s = Inr s'"
  shows "\<exists>fi. heap s this = Some fi \<and> bounds_check (o2n_fds s) (fds_index fi) \<and>
           s' = close_effect this fi s"
  using assms by (auto simp: close_socket_eq split: option.splits if_splits)

lemma close_effect_simps:
  "o2n_fds_info (close_effect a fi s) = o2n_fds_info s"
  "length (o2n_fds (close_effect a fi s)) = length (o2n_fds s)"
  "o2n_socket_delete_flag (close_effect a fi s)"
  "next_addr (close_effect a fi s) = next_addr s"
  "calls (close_effect a fi s) = calls s"
  "clock (close_effect a fi s) = clock s"
  "wire (close_effect a fi s) = wire s"
  "heap (close_effect a fi s) =
     (heap s)(a \<mapsto> fi\<lparr>in_message := None, out_message := [],
                 net_tag := NET_INFO_CLOSED, delete_me := True\<rparr>)"
  by (simp_all add: close_effect_def Let_def)

lemma close_all_fds_info:
  "close_all as s = Inr s' \<Longrightarrow>
     o2n_fds_info s' = o2n_fds_info s \<and> length (o2n_fds s') = length (o2n_fds s)"
proof (induction as arbitrary: s)
  case Nil
  then show ?case by simp
next
  case (Cons a as)
  then show ?case
    by (auto split: sum.splits dest!: close_socket_InrD simp: close_effect_simps)
qed

lemma Fds_info_dtor_length:
  assumes "Fds_info_dtor E this s = Inr s'"
  shows "Suc (length (o2n_fds_info s')) = length (o2n_fds_info s)"
  using assms
  by (auto simp: Fds_info_dtor_def Let_def owner_remove_def
      split: option.splits if_splits sum.splits dest!: close_all_fds_info)

lemma delete_Fds_info_length:
  assumes "delete_Fds_info E this s = Inr s'"
  shows "Suc (length (o2n_fds_info s')) = length (o2n_fds_info s)"
  using assms Fds_info_dtor_length
  by (fastforce simp: delete_Fds_info_def split: sum.splits)

function scan_deleted :: "env \<Rightarrow> nat \<Rightarrow> net \<Rightarrow> error + net" where
  "scan_deleted E i s =
     (if i < length (o2n_fds_info s)
      then (case heap s (o2n_fds_info s ! i) of
              None \<Rightarrow> Inl InvalidAccess
            | Some fi \<Rightarrow>
                (if delete_me fi
                 then (case delete_Fds_info E (o2n_fds_info s ! i) s of
                         Inl e \<Rightarrow> Inl e
                       | Inr s' \<Rightarrow> scan_deleted E i s')
                 else scan_deleted E (i + 1) s))
      else Inr s)"
  by pat_completeness auto
termination
proof (relation "measure (\<lambda>(E, i, s). length (o2n_fds_info s) - i)")
  show "wf (measure (\<lambda>(E, i, s). length (o2n_fds_info s) - i))" by simp
next
  fix E :: env and i :: nat and s s' :: net
  assume "i < length (o2n_fds_info s)"
    and "delete_Fds_info E (o2n_fds_info s ! i) s = Inr s'"
  then show "((E, i, s'), (E, i, s)) \<in> measure (\<lambda>(E, i, s). length (o2n_fds_info s) - i)"
    using delete_Fds_info_length [of E "o2n_fds_info s ! i" s s'] by simp
next
  fix E :: env and i :: nat and s :: net
  assume "i < length (o2n_fds_info s)"
  then show "((E, i + 1, s), (E, i, s)) \<in> measure (\<lambda>(E, i, s). length (o2n_fds_info s) - i)"
    by simp
qed

lemma scan_deleted_length:
  "scan_deleted E i s = Inr s' \<Longrightarrow>
     length (o2n_fds_info s') \<le> length (o2n_fds_info s) \<and>
     (length (o2n_fds_info s') = length (o2n_fds_info s) \<longrightarrow> s' = s)"
proof (induction E i s rule: scan_deleted.induct)
  case (1 E i s)
  show ?case
  proof (cases "i < length (o2n_fds_info s)")
    case False
    with "1.prems" show ?thesis by simp
  next
    case True
    then obtain fi where fi: "heap s (o2n_fds_info s ! i) = Some fi"
      using "1.prems" by (cases "heap s (o2n_fds_info s ! i)") simp_all
    show ?thesis
    proof (cases "delete_me fi")
      case False
      with True fi "1.prems" "1.IH"(2) show ?thesis by simp
    next
      case dm: True
      then obtain s1 where s1: "delete_Fds_info E (o2n_fds_info s ! i) s = Inr s1"
        using True fi "1.prems" by (cases "delete_Fds_info E (o2n_fds_info s ! i) s") simp_all
      with True fi dm "1.prems" have "scan_deleted E i s1 = Inr s'" by simp
      from "1.IH"(1) [OF True fi dm s1 this] delete_Fds_info_length [OF s1]
      show ?thesis by simp
    qed
  qed
qed

function o2n_free_deleted_sockets :: "env \<Rightarrow> net \<Rightarrow> error + net" where
  "o2n_free_deleted_sockets E s =
     (if o2n_socket_delete_flag s
      then (case scan_deleted E 0 (s\<lparr>o2n_socket_delete_flag := False\<rparr>) of
              Inl e \<Rightarrow> Inl e
            | Inr s' \<Rightarrow> o2n_free_deleted_sockets E s')
      else Inr s)"
  by pat_completeness auto
termination
proof (relation "measure (\<lambda>(E, s). 2 * length (o2n_fds_info s) +
                            (if o2n_socket_delete_flag s then 1 else 0))")
  show "wf (measure (\<lambda>(E, s). 2 * length (o2n_fds_info s) +
                            (if o2n_socket_delete_flag s then 1 else 0)))" by simp
next
  fix E :: env and s s' :: net
  assume flag: "o2n_socket_delete_flag s"
    and scan: "scan_deleted E 0 (s\<lparr>o2n_socket_delete_flag := False\<rparr>) = Inr s'"
  from scan_deleted_length [OF scan]
  have "length (o2n_fds_info s') < length (o2n_fds_info s) \<or>
        (length (o2n_fds_info s') = length (o2n_fds_info s) \<and> \<not> o2n_socket_delete_flag s')"
    by (cases "length (o2n_fds_info s') = length (o2n_fds_info s)") auto
  with flag show "((E, s'), (E, s)) \<in> measure (\<lambda>(E, s). 2 * length (o2n_fds_info s) +
                            (if o2n_socket_delete_flag s then 1 else 0))"
    by auto
qed



text \<open>
  \<^verbatim>\<open>o2n_recv\<close>, the tick of the reactor: sweep, one \<^verbatim>\<open>poll\<close>, the dispatch loop over
  the descriptors that existed when \<^verbatim>\<open>poll\<close> returned, sweep.
\<close>

definition o2n_recv :: "env \<Rightarrow> net \<Rightarrow> (error + O2err \<times> net) option" where
  "o2n_recv E s =
     (case (if o2n_socket_delete_flag s then o2n_free_deleted_sockets E s else Inr s) of
        Inl e \<Rightarrow> Some (Inl e)
      | Inr s1 \<Rightarrow>
          (let s2 = poll E s1
           in rbind (dispatch_loop E 0 (length (o2n_fds s2)) s2)
                (\<lambda>(r, s3).
                   if r \<noteq> O2_SUCCESS then Some (Inr (r, s3))
                   else (case (if o2n_socket_delete_flag s3
                               then o2n_free_deleted_sockets E s3 else Inr s3) of
                           Inl e \<Rightarrow> Some (Inl e)
                         | Inr s4 \<Rightarrow> Some (Inr (O2_SUCCESS, s4))))))"

lemma registry_inv_alt:
  "registry_inv s \<longleftrightarrow>
     length (o2n_fds s) = length (o2n_fds_info s) \<and>
     (\<forall>i < length (o2n_fds_info s).
        \<exists>fi. heap s (o2n_fds_info s ! i) = Some fi \<and> fds_index fi = int i)"
  by (auto simp: registry_inv_def get_socket_def bounds_check_def)

lemma registry_inv_distinct:
  assumes "registry_inv s"
  shows "distinct (o2n_fds_info s)"
proof -
  have "i = j" if "i < length (o2n_fds_info s)" "j < length (o2n_fds_info s)"
      "o2n_fds_info s ! i = o2n_fds_info s ! j" for i j
  proof -
    from assms that(1) obtain fi where "heap s (o2n_fds_info s ! i) = Some fi" "fds_index fi = int i"
      by (auto simp: registry_inv_alt)
    moreover from assms that(2) obtain fj where "heap s (o2n_fds_info s ! j) = Some fj" "fds_index fj = int j"
      by (auto simp: registry_inv_alt)
    ultimately show ?thesis using that(3) by simp
  qed
  then show ?thesis by (auto simp: distinct_conv_nth)
qed

lemma registry_inv_lookup:
  assumes "registry_inv s" "a \<in> set (o2n_fds_info s)" "heap s a = Some fi"
  shows "bounds_check (o2n_fds s) (fds_index fi) \<and> o2n_fds_info s ! nat (fds_index fi) = a \<and>
         nat (fds_index fi) < length (o2n_fds_info s)"
proof -
  from assms(2) obtain i where i: "i < length (o2n_fds_info s)" "o2n_fds_info s ! i = a"
    by (auto simp: in_set_conv_nth)
  with assms(1,3) have "fds_index fi = int i" by (auto simp: registry_inv_alt)
  with i assms(1) show ?thesis by (simp add: bounds_check_def registry_inv_alt)
qed

lemma registry_inv_close_effect:
  assumes "registry_inv s" "heap s a = Some fi"
  shows "registry_inv (close_effect a fi s)"
  using assms by (auto simp: registry_inv_alt close_effect_simps)

lemma closed_inv_close_effect:
  assumes "registry_inv s" "closed_inv s" "heap s a = Some fi" "a \<in> set (o2n_fds_info s)"
  shows "closed_inv (close_effect a fi s)"
proof -
  from registry_inv_lookup [OF assms(1,4,3)]
  have k: "nat (fds_index fi) < length (o2n_fds_info s)" "o2n_fds_info s ! nat (fds_index fi) = a"
    by simp_all
  have len: "length (o2n_fds s) = length (o2n_fds_info s)"
    using assms(1) by (simp add: registry_inv_alt)
  have d: "distinct (o2n_fds_info s)" by (rule registry_inv_distinct [OF assms(1)])
  show ?thesis
    unfolding closed_inv_def
  proof (intro allI impI)
    fix i fj
    assume i: "i < length (o2n_fds_info (close_effect a fi s))"
      and h: "heap (close_effect a fi s) (o2n_fds_info (close_effect a fi s) ! i) = Some fj"
      and c: "fd (o2n_fds (close_effect a fi s) ! i) = INVALID_SOCKET \<or> delete_me fj"
    show "net_tag fj = NET_INFO_CLOSED"
    proof (cases "o2n_fds_info s ! i = a")
      case True
      with h show ?thesis by (auto simp: close_effect_simps)
    next
      case False
      with k d i have ne: "i \<noteq> nat (fds_index fi)" by (auto simp: close_effect_simps)
      with False h c i len have "heap s (o2n_fds_info s ! i) = Some fj"
          "fd (o2n_fds s ! i) = INVALID_SOCKET \<or> delete_me fj"
        by (auto simp: close_effect_simps close_effect_def Let_def)
      with assms(2) i show ?thesis by (auto simp: closed_inv_def close_effect_simps)
    qed
  qed
qed


lemma close_socket_registered:
  assumes "registry_inv s" "closed_inv s" "a \<in> set (o2n_fds_info s)"
  shows "\<exists>fi. heap s a = Some fi \<and> close_socket a s = Inr (close_effect a fi s)"
proof -
  from assms(3) obtain i where i: "i < length (o2n_fds_info s)" "o2n_fds_info s ! i = a"
    by (auto simp: in_set_conv_nth)
  with assms(1) obtain fi where fi: "heap s a = Some fi" "fds_index fi = int i"
    by (auto simp: registry_inv_alt)
  from assms(1) i fi have b: "bounds_check (o2n_fds s) (fds_index fi)"
    by (simp add: registry_inv_alt bounds_check_def)
  from assms(2) i fi have "fd (o2n_fds s ! i) = INVALID_SOCKET \<longrightarrow> net_tag fi = NET_INFO_CLOSED"
    by (auto simp: closed_inv_def)
  with fi b show ?thesis by (simp add: close_socket_eq)
qed

lemma registry_inv_nth:
  assumes "registry_inv s" "i < length (o2n_fds_info s)"
  shows "\<exists>fi. heap s (o2n_fds_info s ! i) = Some fi \<and> fds_index fi = int i"
  using assms by (simp add: registry_inv_alt)

lemma registry_inv_last:
  assumes "registry_inv s" "o2n_fds_info s \<noteq> []"
  shows "\<exists>r. heap s (last (o2n_fds_info s)) = Some r \<and>
             fds_index r = int (length (o2n_fds_info s) - 1)"
  using registry_inv_nth [OF assms(1), of "length (o2n_fds_info s) - 1"] assms(2)
  by (simp add: last_conv_nth)

definition unregister :: "nat \<Rightarrow> net \<Rightarrow> net" where
  "unregister i s =
     (if i + 1 < length (o2n_fds s)
      then s\<lparr>heap := (heap s)(last (o2n_fds_info s) :=
                      map_option (\<lambda>r. r\<lparr>fds_index := int i\<rparr>)
                        (heap s (last (o2n_fds_info s)))),
             o2n_fds := butlast ((o2n_fds s)[i := last (o2n_fds s)]),
             o2n_fds_info := butlast ((o2n_fds_info s)[i := last (o2n_fds_info s)])\<rparr>
      else s\<lparr>o2n_fds := butlast (o2n_fds s),
             o2n_fds_info := butlast (o2n_fds_info s)\<rparr>)"

lemma nth_swap_last:
  assumes "i < length xs" "j < length xs - 1"
  shows "butlast (xs[i := last xs]) ! j = (if j = i then last xs else xs ! j)"
  using assms by (simp add: nth_butlast nth_list_update)

lemma unregister_simps:
  "length (o2n_fds (unregister i s)) = length (o2n_fds s) - 1"
  "length (o2n_fds_info (unregister i s)) = length (o2n_fds_info s) - 1"
  "o2n_socket_delete_flag (unregister i s) = o2n_socket_delete_flag s"
  "calls (unregister i s) = calls s"
  "next_addr (unregister i s) = next_addr s"
  by (simp_all add: unregister_def)

lemma Fds_info_dtor_eq:
  assumes "registry_inv s" "i < length (o2n_fds_info s)"
    "heap s (o2n_fds_info s ! i) = Some fi" "net_tag fi = NET_INFO_CLOSED"
  shows "Fds_info_dtor E (o2n_fds_info s ! i) s =
           (case owner fi of
              None \<Rightarrow> Inr (unregister i s)
            | Some ow \<Rightarrow> owner_remove E ow (unregister i s))"
proof -
  have len: "length (o2n_fds s) = length (o2n_fds_info s)"
    using assms(1) by (simp add: registry_inv_alt)
  have idx: "fds_index fi = int i"
    using assms(1,2,3) by (auto simp: registry_inv_alt)
  have ne: "o2n_fds_info s \<noteq> []" "o2n_fds s \<noteq> []" using assms(2) len by auto
  have bc: "bounds_check (o2n_fds s) (int i)" "bounds_check (o2n_fds_info s) (int i)"
    using assms(2) len by (simp_all add: bounds_check_def)
  show ?thesis
  proof (cases "i + 1 < length (o2n_fds s)")
    case True
    from registry_inv_last [OF assms(1) ne(1)]
    obtain r where r: "heap s (last (o2n_fds_info s)) = Some r" by blast
    from True assms(3,4) idx ne bc r len show ?thesis
      by (cases "owner fi") (simp_all add: Fds_info_dtor_def Let_def unregister_def)
  next
    case False
    with assms(3,4) idx ne bc len show ?thesis
      by (cases "owner fi") (simp_all add: Fds_info_dtor_def Let_def unregister_def)
  qed
qed

lemma registry_inv_unregister:
  assumes "registry_inv s" "i < length (o2n_fds_info s)"
  shows "registry_inv (unregister i s)"
proof -
  have len: "length (o2n_fds s) = length (o2n_fds_info s)"
    using assms(1) by (simp add: registry_inv_alt)
  have d: "distinct (o2n_fds_info s)" by (rule registry_inv_distinct [OF assms(1)])
  let ?n = "length (o2n_fds_info s)"
  have ne: "o2n_fds_info s \<noteq> []" using assms(2) by auto
  have lst: "last (o2n_fds_info s) = o2n_fds_info s ! (?n - 1)"
    using ne by (simp add: last_conv_nth)
  show ?thesis
  proof (cases "i + 1 < length (o2n_fds s)")
    case False
    with assms len show ?thesis
      by (auto simp: registry_inv_alt unregister_def nth_butlast)
  next
    case True
    from registry_inv_last [OF assms(1) ne]
    obtain r where r: "heap s (last (o2n_fds_info s)) = Some r" by blast
    have "\<exists>fi. heap (unregister i s) (o2n_fds_info (unregister i s) ! j) = Some fi \<and>
               fds_index fi = int j" if j: "j < ?n - 1" for j
    proof (cases "j = i")
      case True
      with \<open>i + 1 < length (o2n_fds s)\<close> assms(2) j r show ?thesis
        by (simp add: unregister_def nth_swap_last)
    next
      case False
      from j d lst have "o2n_fds_info s ! j \<noteq> last (o2n_fds_info s)"
        by (auto simp: distinct_conv_nth)
      moreover from j have "j < length (o2n_fds_info s)" by simp
      from registry_inv_nth [OF assms(1) this]
      obtain fj where "heap s (o2n_fds_info s ! j) = Some fj" "fds_index fj = int j"
        by blast
      ultimately show ?thesis
        using \<open>i + 1 < length (o2n_fds s)\<close> assms(2) j False
        by (simp add: unregister_def nth_swap_last)
    qed
    with True len show ?thesis
      by (simp add: registry_inv_alt unregister_simps)
  qed
qed


lemma list_update_last_id:
  "i < length xs \<Longrightarrow> \<not> Suc i < length xs \<Longrightarrow> xs[i := last xs] = xs"
  by (cases xs rule: rev_cases) (auto simp: list_update_append)

lemma unregister_fds_info:
  assumes "registry_inv s" "i < length (o2n_fds_info s)"
  shows "o2n_fds_info (unregister i s) = butlast ((o2n_fds_info s)[i := last (o2n_fds_info s)])"
proof -
  have len: "length (o2n_fds s) = length (o2n_fds_info s)"
    using assms(1) by (simp add: registry_inv_alt)
  show ?thesis
    using assms(2) len by (simp add: unregister_def list_update_last_id)
qed

definition marks_kept :: "net \<Rightarrow> net \<Rightarrow> bool" where
  "marks_kept s s' =
     (\<forall>b fb'. heap s' b = Some fb' \<longrightarrow>
        (\<exists>fb. heap s b = Some fb \<and> (delete_me fb \<longrightarrow> delete_me fb') \<and>
              (delete_me fb' \<longrightarrow> delete_me fb \<or> o2n_socket_delete_flag s')))"

lemma marks_kept_refl: "marks_kept s s"
  by (simp add: marks_kept_def)

lemma marks_kept_trans:
  assumes "marks_kept s s1" "marks_kept s1 s2"
    "o2n_socket_delete_flag s1 \<longrightarrow> o2n_socket_delete_flag s2"
  shows "marks_kept s s2"
  unfolding marks_kept_def
proof (intro allI impI)
  fix b fb' assume "heap s2 b = Some fb'"
  with assms(2) obtain f1 where f1: "heap s1 b = Some f1" "delete_me f1 \<longrightarrow> delete_me fb'"
      "delete_me fb' \<longrightarrow> delete_me f1 \<or> o2n_socket_delete_flag s2"
    unfolding marks_kept_def by blast
  from assms(1) f1(1) obtain fb where fb: "heap s b = Some fb" "delete_me fb \<longrightarrow> delete_me f1"
      "delete_me f1 \<longrightarrow> delete_me fb \<or> o2n_socket_delete_flag s1"
    unfolding marks_kept_def by blast
  from f1(2,3) fb assms(3)
  show "\<exists>fb. heap s b = Some fb \<and> (delete_me fb \<longrightarrow> delete_me fb') \<and>
              (delete_me fb' \<longrightarrow> delete_me fb \<or> o2n_socket_delete_flag s2)"
    by blast
qed

lemma marks_kept_close_effect:
  assumes "heap s a = Some fi"
  shows "marks_kept s (close_effect a fi s)"
  using assms by (auto simp: marks_kept_def close_effect_simps)

lemma close_all_registered:
  assumes "registry_inv s" "closed_inv s" "set as \<subseteq> set (o2n_fds_info s)"
  shows "\<exists>s'. close_all as s = Inr s' \<and> registry_inv s' \<and> closed_inv s' \<and>
           o2n_fds_info s' = o2n_fds_info s \<and> calls s' = calls s \<and>
           next_addr s' = next_addr s \<and>
           (o2n_socket_delete_flag s \<longrightarrow> o2n_socket_delete_flag s') \<and>
           marks_kept s s'"
  using assms
proof (induction as arbitrary: s)
  case Nil
  then show ?case by (simp add: marks_kept_refl)
next
  case (Cons a as)
  from Cons.prems have a: "a \<in> set (o2n_fds_info s)" by simp
  from close_socket_registered [OF Cons.prems(1,2) a]
  obtain fi where fi: "heap s a = Some fi" "close_socket a s = Inr (close_effect a fi s)"
    by blast
  let ?s1 = "close_effect a fi s"
  have r1: "registry_inv ?s1" by (rule registry_inv_close_effect [OF Cons.prems(1) fi(1)])
  have c1: "closed_inv ?s1" by (rule closed_inv_close_effect [OF Cons.prems(1,2) fi(1) a])
  have sub: "set as \<subseteq> set (o2n_fds_info ?s1)" using Cons.prems(3) by (simp add: close_effect_simps)
  from Cons.IH [OF r1 c1 sub] obtain s' where s':
    "close_all as ?s1 = Inr s'" "registry_inv s'" "closed_inv s'"
    "o2n_fds_info s' = o2n_fds_info ?s1" "calls s' = calls ?s1"
    "o2n_socket_delete_flag ?s1 \<longrightarrow> o2n_socket_delete_flag s'"
    "marks_kept ?s1 s'" "next_addr s' = next_addr ?s1"
    by blast
  have flag: "o2n_socket_delete_flag s'" using s'(6) by (simp add: close_effect_simps)
  have "close_all (a # as) s = Inr s'" using fi s'(1) by simp
  moreover have "marks_kept s s'"
    by (rule marks_kept_trans [OF marks_kept_close_effect [OF fi(1)] s'(7) s'(6)])
  ultimately show ?case using s'(2,3,4,5,8) flag by (simp add: close_effect_simps)
qed

lemma unregister_set:
  assumes "registry_inv s" "i < length (o2n_fds_info s)"
  shows "set (o2n_fds_info (unregister i s)) = set (o2n_fds_info s) - {o2n_fds_info s ! i}"
proof -
  have d: "distinct (o2n_fds_info s)" by (rule registry_inv_distinct [OF assms(1)])
  obtain ys y where ys: "o2n_fds_info s = ys @ [y]"
    using assms(2) by (cases "o2n_fds_info s" rule: rev_cases) auto
  have eq: "o2n_fds_info (unregister i s) = butlast ((ys @ [y])[i := y])"
    using unregister_fds_info [OF assms] ys by simp
  show ?thesis
  proof (cases "i < length ys")
    case True
    with d ys have "set (ys[i := y]) = insert y (set ys - {ys ! i})"
      by (simp add: set_update_distinct)
    with True ys d show ?thesis
      unfolding eq by (auto simp: list_update_append nth_append)
  next
    case False
    with assms(2) ys have "i = length ys" by simp
    with ys d show ?thesis
      unfolding eq by (auto simp: list_update_append nth_append)
  qed
qed

lemma unregister_heap:
  assumes "heap (unregister i s) b = Some fb'"
  shows "\<exists>fb. heap s b = Some fb \<and> delete_me fb' = delete_me fb \<and>
              net_tag fb' = net_tag fb \<and> owner fb' = owner fb"
  using assms by (auto simp: unregister_def split: if_splits)

lemma unregister_heap_None:
  "(heap (unregister i s) b = None) = (heap s b = None)"
  by (auto simp: unregister_def split: if_splits)

lemma unregister_nth_before:
  assumes "registry_inv s" "i < length (o2n_fds_info s)" "j < i"
  shows "o2n_fds_info (unregister i s) ! j = o2n_fds_info s ! j"
  using assms by (simp add: unregister_fds_info nth_swap_last)

lemma closed_inv_unregister:
  assumes "registry_inv s" "closed_inv s" "i < length (o2n_fds_info s)"
  shows "closed_inv (unregister i s)"
proof -
  have len: "length (o2n_fds s) = length (o2n_fds_info s)"
    using assms(1) by (simp add: registry_inv_alt)
  let ?n = "length (o2n_fds_info s)"
  have ne: "o2n_fds_info s \<noteq> []" "o2n_fds s \<noteq> []" using assms(3) len by auto
  have lst: "last (o2n_fds_info s) = o2n_fds_info s ! (?n - 1)"
      "last (o2n_fds s) = o2n_fds s ! (?n - 1)"
    using ne len by (simp_all add: last_conv_nth)
  have fds: "o2n_fds (unregister i s) = butlast ((o2n_fds s)[i := last (o2n_fds s)])"
    using assms(3) len by (simp add: unregister_def list_update_last_id)
  show ?thesis
    unfolding closed_inv_def
  proof (intro allI impI)
    fix j fj
    assume j: "j < length (o2n_fds_info (unregister i s))"
      and h: "heap (unregister i s) (o2n_fds_info (unregister i s) ! j) = Some fj"
      and c: "fd (o2n_fds (unregister i s) ! j) = INVALID_SOCKET \<or> delete_me fj"
    from j have j': "j < ?n - 1" by (simp add: unregister_simps)
    define k where "k = (if j = i then ?n - 1 else j)"
    have k: "k < ?n" using j' by (auto simp: k_def)
    have "o2n_fds_info (unregister i s) ! j =
            (if j = i then last (o2n_fds_info s) else o2n_fds_info s ! j)"
      using assms(3) j' by (simp add: unregister_fds_info [OF assms(1,3)] nth_swap_last)
    then have a: "o2n_fds_info (unregister i s) ! j = o2n_fds_info s ! k"
      by (simp add: lst k_def)
    have "o2n_fds (unregister i s) ! j = (if j = i then last (o2n_fds s) else o2n_fds s ! j)"
      using assms(3) j' len by (simp add: fds nth_swap_last)
    then have b: "o2n_fds (unregister i s) ! j = o2n_fds s ! k"
      by (simp add: lst k_def)
    from unregister_heap [OF h] a obtain fb where fb: "heap s (o2n_fds_info s ! k) = Some fb"
        "delete_me fj = delete_me fb" "net_tag fj = net_tag fb"
      by auto
    from assms(2) k fb(1)
    have "fd (o2n_fds s ! k) = INVALID_SOCKET \<or> delete_me fb \<longrightarrow> net_tag fb = NET_INFO_CLOSED"
      unfolding closed_inv_def by blast
    with c b fb(2,3) show "net_tag fj = NET_INFO_CLOSED" by simp
  qed
qed


lemma registry_inv_calls [simp]: "registry_inv (s\<lparr>calls := c\<rparr>) = registry_inv s"
  by (simp add: registry_inv_alt)

lemma closed_inv_calls [simp]: "closed_inv (s\<lparr>calls := c\<rparr>) = closed_inv s"
  by (simp add: closed_inv_def)

lemma owner_remove_registered:
  assumes "registry_inv s" "closed_inv s" "hooks_ok E"
  shows "\<exists>s'. owner_remove E ow s = Inr s' \<and> registry_inv s' \<and> closed_inv s' \<and>
           o2n_fds_info s' = o2n_fds_info s \<and> calls s' = calls s @ [Removed ow] \<and>
           next_addr s' = next_addr s \<and>
           (o2n_socket_delete_flag s \<longrightarrow> o2n_socket_delete_flag s') \<and>
           marks_kept s s'"
proof -
  let ?s1 = "s\<lparr>calls := calls s @ [Removed ow]\<rparr>"
  have sub: "set (on_remove E ow ?s1) \<subseteq> set (o2n_fds_info ?s1)"
    using assms(3) unfolding hooks_ok_def by blast
  have r: "registry_inv ?s1" and c: "closed_inv ?s1" using assms(1,2) by simp_all
  have "marks_kept ?s1 s' \<Longrightarrow> marks_kept s s'" for s'
    by (simp add: marks_kept_def)
  with close_all_registered [OF r c sub] show ?thesis
    by (auto simp: owner_remove_def Let_def)
qed

lemma registry_inv_dealloc:
  assumes "registry_inv s" "a \<notin> set (o2n_fds_info s)"
  shows "registry_inv (s\<lparr>heap := (heap s)(a := None)\<rparr>)"
proof -
  have "o2n_fds_info s ! i \<noteq> a" if "i < length (o2n_fds_info s)" for i
    using that assms(2) by (metis nth_mem)
  with assms(1) show ?thesis by (simp add: registry_inv_alt)
qed

lemma closed_inv_dealloc:
  assumes "closed_inv s" "a \<notin> set (o2n_fds_info s)"
  shows "closed_inv (s\<lparr>heap := (heap s)(a := None)\<rparr>)"
proof -
  have "o2n_fds_info s ! i \<noteq> a" if "i < length (o2n_fds_info s)" for i
    using that assms(2) by (metis nth_mem)
  with assms(1) show ?thesis by (simp add: closed_inv_def)
qed

lemma marks_kept_unregister: "marks_kept s (unregister i s)"
  unfolding marks_kept_def using unregister_heap by blast

lemma marks_kept_dealloc:
  "marks_kept s (s\<lparr>heap := (heap s)(a := None)\<rparr>)"
  by (simp add: marks_kept_def)

lemma delete_registered:
  assumes "registry_inv s" "closed_inv s" "hooks_ok E" "i < length (o2n_fds_info s)"
    "heap s (o2n_fds_info s ! i) = Some fi" "net_tag fi = NET_INFO_CLOSED"
  shows "\<exists>s'. delete_Fds_info E (o2n_fds_info s ! i) s = Inr s' \<and>
           registry_inv s' \<and> closed_inv s' \<and>
           o2n_fds_info s' = butlast ((o2n_fds_info s)[i := last (o2n_fds_info s)]) \<and>
           next_addr s' = next_addr s \<and>
           (o2n_socket_delete_flag s \<longrightarrow> o2n_socket_delete_flag s') \<and>
           marks_kept s s'"
proof -
  let ?a = "o2n_fds_info s ! i"
  let ?u = "unregister i s"
  have ru: "registry_inv ?u" by (rule registry_inv_unregister [OF assms(1,4)])
  have cu: "closed_inv ?u" by (rule closed_inv_unregister [OF assms(1,2,4)])
  have iu: "o2n_fds_info ?u = butlast ((o2n_fds_info s)[i := last (o2n_fds_info s)])"
    by (rule unregister_fds_info [OF assms(1,4)])
  have nu: "?a \<notin> set (o2n_fds_info ?u)"
    by (simp add: unregister_set [OF assms(1,4)])
  have "\<exists>s2. Fds_info_dtor E ?a s = Inr s2 \<and> registry_inv s2 \<and> closed_inv s2 \<and>
           o2n_fds_info s2 = o2n_fds_info ?u \<and> next_addr s2 = next_addr ?u \<and>
           (o2n_socket_delete_flag ?u \<longrightarrow> o2n_socket_delete_flag s2) \<and>
           marks_kept ?u s2"
  proof (cases "owner fi")
    case None
    with ru cu show ?thesis
      by (simp add: Fds_info_dtor_eq [OF assms(1,4,5,6)] marks_kept_refl)
  next
    case (Some ow)
    from owner_remove_registered [OF ru cu assms(3), of ow] Some show ?thesis
      by (auto simp: Fds_info_dtor_eq [OF assms(1,4,5,6)])
  qed
  then obtain s2 where s2: "Fds_info_dtor E ?a s = Inr s2" "registry_inv s2" "closed_inv s2"
      "o2n_fds_info s2 = o2n_fds_info ?u"
      "o2n_socket_delete_flag ?u \<longrightarrow> o2n_socket_delete_flag s2"
      "marks_kept ?u s2" "next_addr s2 = next_addr ?u"
    by blast
  let ?s3 = "s2\<lparr>heap := (heap s2)(?a := None)\<rparr>"
  have n2: "?a \<notin> set (o2n_fds_info s2)" using nu s2(4) by simp
  have "delete_Fds_info E ?a s = Inr ?s3" using s2(1) by (simp add: delete_Fds_info_def)
  moreover have "registry_inv ?s3" by (rule registry_inv_dealloc [OF s2(2) n2])
  moreover have "closed_inv ?s3" by (rule closed_inv_dealloc [OF s2(3) n2])
  moreover have "o2n_fds_info ?s3 = butlast ((o2n_fds_info s)[i := last (o2n_fds_info s)])"
    using s2(4) iu by simp
  moreover have "o2n_socket_delete_flag s \<longrightarrow> o2n_socket_delete_flag ?s3"
    using s2(5) by (simp add: unregister_simps)
  moreover have "next_addr ?s3 = next_addr s"
    using s2(7) by (simp add: unregister_simps)
  moreover have "marks_kept s ?s3"
  proof -
    have "marks_kept s s2"
      by (rule marks_kept_trans [OF marks_kept_unregister s2(6) s2(5)])
    then show ?thesis
      by (rule marks_kept_trans [OF _ marks_kept_dealloc]) simp
  qed
  ultimately show ?thesis by blast
qed


lemma set_swap_last_subset: "set (butlast (xs[i := last xs])) \<subseteq> set xs"
proof (cases "i < length xs")
  case True
  then have "xs \<noteq> []" by auto
  then have "set (xs[i := last xs]) \<subseteq> set xs"
    using set_update_subset_insert [of xs i "last xs"] by auto
  moreover have "set (butlast (xs[i := last xs])) \<subseteq> set (xs[i := last xs])"
    by (meson in_set_butlastD subsetI)
  ultimately show ?thesis by blast
next
  case False
  then have "xs[i := last xs] = xs" by (simp add: list_update_beyond)
  then show ?thesis by (auto dest: in_set_butlastD)
qed

lemma scan_deleted_registered:
  "hooks_ok E \<Longrightarrow> registry_inv s \<Longrightarrow> closed_inv s \<Longrightarrow>
    (\<forall>j<i. \<forall>fj. heap s (o2n_fds_info s ! j) = Some fj \<and> delete_me fj \<longrightarrow>
        o2n_socket_delete_flag s) \<Longrightarrow>
    \<exists>s'. scan_deleted E i s = Inr s' \<and> registry_inv s' \<and> closed_inv s' \<and> flag_inv s' \<and>
         set (o2n_fds_info s') \<subseteq> set (o2n_fds_info s) \<and> next_addr s' = next_addr s \<and>
         (o2n_socket_delete_flag s \<longrightarrow> o2n_socket_delete_flag s') \<and> marks_kept s s'"
proof (induction E i s rule: scan_deleted.induct)
  case (1 E i s)
  note hok = "1.prems"(1) and rinv = "1.prems"(2) and cinv = "1.prems"(3)
    and pre = "1.prems"(4)
  show ?case
  proof (cases "i < length (o2n_fds_info s)")
    case False
    have "flag_inv s"
      unfolding flag_inv_def
    proof (intro impI, elim exE conjE)
      fix k fk
      assume "k < length (o2n_fds_info s)" "heap s (o2n_fds_info s ! k) = Some fk" "delete_me fk"
      moreover from this(1) False have "k < i" by simp
      ultimately show "o2n_socket_delete_flag s" using pre by blast
    qed
    with False rinv cinv show ?thesis by (simp add: marks_kept_refl)
  next
    case True
    from registry_inv_nth [OF rinv True]
    obtain fi where fi: "heap s (o2n_fds_info s ! i) = Some fi" "fds_index fi = int i"
      by blast
    show ?thesis
    proof (cases "delete_me fi")
      case False
      have "\<forall>j<i + 1. \<forall>fj. heap s (o2n_fds_info s ! j) = Some fj \<and> delete_me fj \<longrightarrow>
              o2n_socket_delete_flag s"
        using pre fi(1) False by (auto simp: less_Suc_eq)
      from "1.IH"(2) [OF True fi(1) False hok rinv cinv this]
      show ?thesis using True fi(1) False by simp
    next
      case dm: True
      have tag: "net_tag fi = NET_INFO_CLOSED"
        using cinv True fi(1) dm unfolding closed_inv_def by blast
      from delete_registered [OF rinv cinv hok True fi(1) tag]
      obtain s1 where s1: "delete_Fds_info E (o2n_fds_info s ! i) s = Inr s1"
          "registry_inv s1" "closed_inv s1"
          "o2n_fds_info s1 = butlast ((o2n_fds_info s)[i := last (o2n_fds_info s)])"
          "o2n_socket_delete_flag s \<longrightarrow> o2n_socket_delete_flag s1"
          "marks_kept s s1" "next_addr s1 = next_addr s"
        by blast
      have J: "\<forall>j<i. \<forall>fj. heap s1 (o2n_fds_info s1 ! j) = Some fj \<and> delete_me fj \<longrightarrow>
              o2n_socket_delete_flag s1"
      proof (intro allI impI)
        fix j fj assume j: "j < i" and h: "heap s1 (o2n_fds_info s1 ! j) = Some fj \<and> delete_me fj"
        have same: "o2n_fds_info s1 ! j = o2n_fds_info s ! j"
          using j True by (simp add: s1(4) nth_swap_last)
        from s1(6) h same obtain fb where fb: "heap s (o2n_fds_info s ! j) = Some fb"
            "delete_me fj \<longrightarrow> delete_me fb \<or> o2n_socket_delete_flag s1"
          unfolding marks_kept_def by metis
        show "o2n_socket_delete_flag s1"
        proof (cases "delete_me fb")
          case True
          with pre j fb(1) have "o2n_socket_delete_flag s" by blast
          with s1(5) show ?thesis by simp
        next
          case False
          with fb(2) h show ?thesis by simp
        qed
      qed
      from "1.IH"(1) [OF True fi(1) dm s1(1) hok s1(2,3) J]
      obtain s' where s': "scan_deleted E i s1 = Inr s'" "registry_inv s'" "closed_inv s'"
          "flag_inv s'" "set (o2n_fds_info s') \<subseteq> set (o2n_fds_info s1)"
          "o2n_socket_delete_flag s1 \<longrightarrow> o2n_socket_delete_flag s'" "marks_kept s1 s'"
          "next_addr s' = next_addr s1"
        by blast
      have "scan_deleted E i s = Inr s'" using True fi(1) dm s1(1) s'(1) by simp
      moreover have "set (o2n_fds_info s') \<subseteq> set (o2n_fds_info s)"
        using s'(5) s1(4) set_swap_last_subset [of "o2n_fds_info s" i] by auto
      moreover have "marks_kept s s'" by (rule marks_kept_trans [OF s1(6) s'(7) s'(6)])
      ultimately show ?thesis using s'(2,3,4,6,8) s1(5,7) by auto
    qed
  qed
qed

definition marks_mono :: "net \<Rightarrow> net \<Rightarrow> bool" where
  "marks_mono s s' =
     (\<forall>b fb'. heap s' b = Some fb' \<longrightarrow>
        (\<exists>fb. heap s b = Some fb \<and> (delete_me fb \<longrightarrow> delete_me fb')))"

lemma marks_kept_mono: "marks_kept s s' \<Longrightarrow> marks_mono s s'"
  unfolding marks_kept_def marks_mono_def by blast

lemma marks_mono_trans: "marks_mono s s1 \<Longrightarrow> marks_mono s1 s2 \<Longrightarrow> marks_mono s s2"
  unfolding marks_mono_def by blast

lemma sweep_registered:
  "hooks_ok E \<Longrightarrow> registry_inv s \<Longrightarrow> closed_inv s \<Longrightarrow> flag_inv s \<Longrightarrow>
   \<exists>s'. o2n_free_deleted_sockets E s = Inr s' \<and> \<not> o2n_socket_delete_flag s' \<and>
        registry_inv s' \<and> closed_inv s' \<and> flag_inv s' \<and>
        set (o2n_fds_info s') \<subseteq> set (o2n_fds_info s) \<and> next_addr s' = next_addr s \<and>
        marks_mono s s'"
proof (induction E s rule: o2n_free_deleted_sockets.induct)
  case (1 E s)
  show ?case
  proof (cases "o2n_socket_delete_flag s")
    case False
    with "1.prems" show ?thesis by (simp add: marks_mono_def)
  next
    case True
    let ?s0 = "s\<lparr>o2n_socket_delete_flag := False\<rparr>"
    have r0: "registry_inv ?s0" using "1.prems"(2) by (simp add: registry_inv_alt)
    have c0: "closed_inv ?s0" using "1.prems"(3) by (simp add: closed_inv_def)
    have "\<forall>j<0. \<forall>fj. heap ?s0 (o2n_fds_info ?s0 ! j) = Some fj \<and> delete_me fj \<longrightarrow>
            o2n_socket_delete_flag ?s0"
      by simp
    from scan_deleted_registered [OF "1.prems"(1) r0 c0 this]
    obtain s1 where s1: "scan_deleted E 0 ?s0 = Inr s1" "registry_inv s1" "closed_inv s1"
        "flag_inv s1" "set (o2n_fds_info s1) \<subseteq> set (o2n_fds_info ?s0)"
        "next_addr s1 = next_addr ?s0" "marks_kept ?s0 s1"
      by blast
    from "1.IH" [OF True s1(1) "1.prems"(1) s1(2,3,4)]
    obtain s' where s': "o2n_free_deleted_sockets E s1 = Inr s'" "\<not> o2n_socket_delete_flag s'"
        "registry_inv s'" "closed_inv s'" "flag_inv s'"
        "set (o2n_fds_info s') \<subseteq> set (o2n_fds_info s1)" "next_addr s' = next_addr s1"
        "marks_mono s1 s'"
      by blast
    have "o2n_free_deleted_sockets E s = Inr s'" using True s1(1) s'(1) by simp
    moreover have "marks_mono s s'"
    proof -
      have "marks_mono ?s0 s1" by (rule marks_kept_mono [OF s1(7)])
      then have "marks_mono s s1" by (simp add: marks_mono_def)
      then show ?thesis by (rule marks_mono_trans [OF _ s'(8)])
    qed
    ultimately show ?thesis using s'(2,3,4,5,6,7) s1(5,6) by auto
  qed
qed

lemma all_nth_enumerate:
  "(\<forall>i<length xs. P i (xs ! i)) = list_all (\<lambda>(i, x). P i x) (enumerate 0 xs)"
  by (auto simp: list_all_iff in_set_enumerate_eq)

lemma registry_inv_code:
  "registry_inv s =
     (length (o2n_fds s) = length (o2n_fds_info s) \<and>
      list_all (\<lambda>(i, a). case heap s a of None \<Rightarrow> False | Some fi \<Rightarrow> fds_index fi = int i)
        (enumerate 0 (o2n_fds_info s)))"
proof -
  have "(\<forall>i < length (o2n_fds_info s).
           \<exists>fi. heap s (o2n_fds_info s ! i) = Some fi \<and> fds_index fi = int i) =
        (\<forall>i < length (o2n_fds_info s).
           (case heap s (o2n_fds_info s ! i) of None \<Rightarrow> False
            | Some fi \<Rightarrow> fds_index fi = int i))"
    by (auto split: option.splits)
  then show ?thesis
    by (simp add: registry_inv_alt all_nth_enumerate [symmetric])
qed

lemma closed_inv_code:
  "closed_inv s =
     list_all (\<lambda>(i, a). case heap s a of None \<Rightarrow> True
                 | Some fi \<Rightarrow> (fd (o2n_fds s ! i) = INVALID_SOCKET \<or> delete_me fi \<longrightarrow>
                              net_tag fi = NET_INFO_CLOSED))
       (enumerate 0 (o2n_fds_info s))"
proof -
  have "closed_inv s =
        (\<forall>i < length (o2n_fds_info s).
           (case heap s (o2n_fds_info s ! i) of None \<Rightarrow> True
            | Some fi \<Rightarrow> (fd (o2n_fds s ! i) = INVALID_SOCKET \<or> delete_me fi \<longrightarrow>
                              net_tag fi = NET_INFO_CLOSED)))"
    by (auto simp: closed_inv_def split: option.splits)
  then show ?thesis
    by (simp add: all_nth_enumerate [symmetric])
qed

lemma flag_inv_code:
  "flag_inv s =
     (list_ex (\<lambda>a. case heap s a of None \<Rightarrow> False | Some fi \<Rightarrow> delete_me fi)
        (o2n_fds_info s) \<longrightarrow> o2n_socket_delete_flag s)"
proof -
  have "(\<exists>i < length (o2n_fds_info s). \<exists>fi.
           heap s (o2n_fds_info s ! i) = Some fi \<and> delete_me fi) =
        (\<exists>a \<in> set (o2n_fds_info s).
           case heap s a of None \<Rightarrow> False | Some fi \<Rightarrow> delete_me fi)"
    by (fastforce simp: in_set_conv_nth split: option.splits)
  then show ?thesis by (simp add: flag_inv_def list_ex_iff)
qed

lemma alloc_inv_live:
  assumes "alloc_inv s" "heap s a = Some fi"
  shows "a < next_addr s"
  using assms unfolding alloc_inv_def by (metis not_le option.distinct(1))

lemma alloc_inv_kept:
  assumes "alloc_inv s" "marks_kept s s'" "next_addr s' = next_addr s"
  shows "alloc_inv s'"
  unfolding alloc_inv_def
proof (intro allI impI)
  fix a assume "next_addr s' \<le> a"
  with assms(1,3) have "heap s a = None" unfolding alloc_inv_def by simp
  with assms(2) show "heap s' a = None"
    unfolding marks_kept_def by (metis option.distinct(1) option.exhaust)
qed

lemma Fds_info_new_registered:
  assumes "registry_inv s" "closed_inv s" "alloc_inv s" "sock \<noteq> INVALID_SOCKET"
  shows "\<exists>s'. Fds_info_new sock tag p s = Inr (next_addr s, s') \<and>
           registry_inv s' \<and> closed_inv s' \<and> alloc_inv s' \<and>
           o2n_fds_info s' = o2n_fds_info s @ [next_addr s] \<and>
           o2n_fds s' = o2n_fds s @ [\<lparr>fd = sock, events = POLLIN, revents = 0\<rparr>] \<and>
           (\<forall>a. a \<noteq> next_addr s \<longrightarrow> heap s' a = heap s a)"
proof -
  let ?a = "next_addr s"
  let ?fi = "\<lparr>net_tag = tag, fds_index = int (length (o2n_fds s)),
                delete_me = False, raw_flag = False, in_length = 0,
                in_message = None, in_length_got = 0, in_msg_got = 0,
                out_message = [], out_msg_sent = 0, port = p, owner = None\<rparr>"
  let ?s' = "s\<lparr>heap := (heap s)(?a \<mapsto> ?fi), next_addr := Suc ?a,
               o2n_fds_info := o2n_fds_info s @ [?a],
               o2n_fds := o2n_fds s @ [\<lparr>fd = sock, events = POLLIN, revents = 0\<rparr>]\<rparr>"
  have len: "length (o2n_fds s) = length (o2n_fds_info s)"
    using assms(1) by (simp add: registry_inv_alt)
  have fresh: "o2n_fds_info s ! i \<noteq> ?a" if "i < length (o2n_fds_info s)" for i
  proof -
    from registry_inv_nth [OF assms(1) that] obtain fi where "heap s (o2n_fds_info s ! i) = Some fi"
      by blast
    from alloc_inv_live [OF assms(3) this] show ?thesis by simp
  qed
  have eq: "Fds_info_new sock tag p s = Inr (?a, ?s')"
    using assms(4) by (simp add: Fds_info_new_def Let_def)
  have r: "registry_inv ?s'"
    unfolding registry_inv_alt
  proof (intro conjI allI impI)
    show "length (o2n_fds ?s') = length (o2n_fds_info ?s')" using len by simp
  next
    fix i assume "i < length (o2n_fds_info ?s')"
    then have "i < length (o2n_fds_info s) \<or> i = length (o2n_fds_info s)" by auto
    then show "\<exists>fi. heap ?s' (o2n_fds_info ?s' ! i) = Some fi \<and> fds_index fi = int i"
    proof
      assume i: "i < length (o2n_fds_info s)"
      with registry_inv_nth [OF assms(1) i] fresh [OF i] show ?thesis
        by (simp add: nth_append)
    next
      assume "i = length (o2n_fds_info s)"
      then show ?thesis using len by (simp add: nth_append)
    qed
  qed
  have c: "closed_inv ?s'"
    unfolding closed_inv_def
  proof (intro allI impI)
    fix i fj
    assume i: "i < length (o2n_fds_info ?s')"
      and h: "heap ?s' (o2n_fds_info ?s' ! i) = Some fj"
      and d: "fd (o2n_fds ?s' ! i) = INVALID_SOCKET \<or> delete_me fj"
    from i have "i < length (o2n_fds_info s) \<or> i = length (o2n_fds_info s)" by auto
    then show "net_tag fj = NET_INFO_CLOSED"
    proof
      assume i': "i < length (o2n_fds_info s)"
      with h fresh [OF i'] have "heap s (o2n_fds_info s ! i) = Some fj"
        by (simp add: nth_append)
      moreover from d i' len have "fd (o2n_fds s ! i) = INVALID_SOCKET \<or> delete_me fj"
        by (simp add: nth_append)
      ultimately show ?thesis using assms(2) i' unfolding closed_inv_def by blast
    next
      assume "i = length (o2n_fds_info s)"
      with h d len assms(4) show ?thesis by (auto simp: nth_append)
    qed
  qed
  have a: "alloc_inv ?s'"
    using assms(3) by (simp add: alloc_inv_def)
  from eq r c a show ?thesis by auto
qed

lemma send_loop_retryable:
  assumes "heap s this = Some fi" "out_message fi = msg # rest"
    "fst (sys_send E (clock s) (send_size fi msg)) < 0"
    "\<not> TERMINATING_SOCKET_ERROR (snd (sys_send E (clock s) (send_size fi msg)))"
  shows "send_loop E False this k s =
           Some (Inr (O2_BLOCKED, set_POLLOUT k (s\<lparr>clock := Suc (clock s)\<rparr>)))"
  using assms by (subst send_loop.simps) (simp add: send_iter_def Let_def)



lemma poll_length [simp]: "length (o2n_fds (poll E s)) = length (o2n_fds s)"
  by (simp add: poll_def)


lemma close_all_effect:
  assumes "registry_inv s" "closed_inv s" "set as \<subseteq> set (o2n_fds_info s)"
  shows "\<exists>s'. close_all as s = Inr s' \<and> registry_inv s' \<and> closed_inv s' \<and>
           o2n_fds_info s' = o2n_fds_info s \<and> calls s' = calls s \<and>
           (\<forall>b. b \<notin> set as \<longrightarrow> heap s' b = heap s b) \<and>
           (\<forall>j < length (o2n_fds_info s). \<exists>fb fb'.
              heap s (o2n_fds_info s ! j) = Some fb \<and>
              heap s' (o2n_fds_info s ! j) = Some fb' \<and>
              fds_index fb' = fds_index fb \<and> owner fb' = owner fb \<and>
              (delete_me fb \<longrightarrow> delete_me fb') \<and>
              (o2n_fds_info s ! j \<in> set as \<longrightarrow> delete_me fb') \<and>
              (o2n_fds_info s ! j \<notin> set as \<longrightarrow> o2n_fds s' ! j = o2n_fds s ! j) \<and>
              (o2n_fds s' ! j = o2n_fds s ! j \<or>
               o2n_fds s' ! j = (o2n_fds s ! j)\<lparr>fd := INVALID_SOCKET\<rparr>))"
  using assms
proof (induction as arbitrary: s)
  case Nil
  then show ?case by (auto simp: registry_inv_alt)
next
  case (Cons a as)
  from Cons.prems have a: "a \<in> set (o2n_fds_info s)" by simp
  from close_socket_registered [OF Cons.prems(1,2) a]
  obtain fi where fi: "heap s a = Some fi" "close_socket a s = Inr (close_effect a fi s)"
    by blast
  let ?s1 = "close_effect a fi s"
  have r1: "registry_inv ?s1" by (rule registry_inv_close_effect [OF Cons.prems(1) fi(1)])
  have c1: "closed_inv ?s1" by (rule closed_inv_close_effect [OF Cons.prems(1,2) fi(1) a])
  have sub: "set as \<subseteq> set (o2n_fds_info ?s1)"
    using Cons.prems(3) by (simp add: close_effect_simps)
  from registry_inv_lookup [OF Cons.prems(1) a fi(1)]
  have k: "nat (fds_index fi) < length (o2n_fds_info s)"
      "o2n_fds_info s ! nat (fds_index fi) = a"
    by simp_all
  have len: "length (o2n_fds s) = length (o2n_fds_info s)"
    using Cons.prems(1) by (simp add: registry_inv_alt)
  have d: "distinct (o2n_fds_info s)" by (rule registry_inv_distinct [OF Cons.prems(1)])
  have pos: "o2n_fds_info s ! j = a \<longleftrightarrow> j = nat (fds_index fi)"
    if "j < length (o2n_fds_info s)" for j
    using that k d by (auto simp: distinct_conv_nth)
  have fds1: "o2n_fds ?s1 ! j =
                (if j = nat (fds_index fi) then (o2n_fds s ! j)\<lparr>fd := INVALID_SOCKET\<rparr>
                 else o2n_fds s ! j)"
    if "j < length (o2n_fds_info s)" for j
    using that len by (simp add: close_effect_def Let_def)
  from Cons.IH [OF r1 c1 sub]
  obtain s' where s': "close_all as ?s1 = Inr s'" "registry_inv s'" "closed_inv s'"
      "o2n_fds_info s' = o2n_fds_info ?s1" "calls s' = calls ?s1"
      "\<forall>b. b \<notin> set as \<longrightarrow> heap s' b = heap ?s1 b"
      "\<forall>j < length (o2n_fds_info ?s1). \<exists>fb fb'.
              heap ?s1 (o2n_fds_info ?s1 ! j) = Some fb \<and>
              heap s' (o2n_fds_info ?s1 ! j) = Some fb' \<and>
              fds_index fb' = fds_index fb \<and> owner fb' = owner fb \<and>
              (delete_me fb \<longrightarrow> delete_me fb') \<and>
              (o2n_fds_info ?s1 ! j \<in> set as \<longrightarrow> delete_me fb') \<and>
              (o2n_fds_info ?s1 ! j \<notin> set as \<longrightarrow> o2n_fds s' ! j = o2n_fds ?s1 ! j) \<and>
              (o2n_fds s' ! j = o2n_fds ?s1 ! j \<or>
               o2n_fds s' ! j = (o2n_fds ?s1 ! j)\<lparr>fd := INVALID_SOCKET\<rparr>)"
    by blast
  have run: "close_all (a # as) s = Inr s'" using fi s'(1) by simp
  have heap_other: "\<forall>b. b \<notin> set (a # as) \<longrightarrow> heap s' b = heap s b"
    using s'(6) by (simp add: close_effect_simps)
  have each: "\<exists>fb fb'.
              heap s (o2n_fds_info s ! j) = Some fb \<and>
              heap s' (o2n_fds_info s ! j) = Some fb' \<and>
              fds_index fb' = fds_index fb \<and> owner fb' = owner fb \<and>
              (delete_me fb \<longrightarrow> delete_me fb') \<and>
              (o2n_fds_info s ! j \<in> set (a # as) \<longrightarrow> delete_me fb') \<and>
              (o2n_fds_info s ! j \<notin> set (a # as) \<longrightarrow> o2n_fds s' ! j = o2n_fds s ! j) \<and>
              (o2n_fds s' ! j = o2n_fds s ! j \<or>
               o2n_fds s' ! j = (o2n_fds s ! j)\<lparr>fd := INVALID_SOCKET\<rparr>)"
    if j: "j < length (o2n_fds_info s)" for j
  proof -
    have fi1: "o2n_fds_info ?s1 = o2n_fds_info s" by (simp add: close_effect_simps)
    from s'(7) [unfolded fi1] j obtain f1 fb' where f: "heap ?s1 (o2n_fds_info s ! j) = Some f1"
        "heap s' (o2n_fds_info s ! j) = Some fb'"
        "fds_index fb' = fds_index f1" "owner fb' = owner f1"
        "delete_me f1 \<longrightarrow> delete_me fb'"
        "o2n_fds_info s ! j \<in> set as \<longrightarrow> delete_me fb'"
        "o2n_fds_info s ! j \<notin> set as \<longrightarrow> o2n_fds s' ! j = o2n_fds ?s1 ! j"
        "o2n_fds s' ! j = o2n_fds ?s1 ! j \<or>
         o2n_fds s' ! j = (o2n_fds ?s1 ! j)\<lparr>fd := INVALID_SOCKET\<rparr>"
      by blast
    from registry_inv_nth [OF Cons.prems(1) j]
    obtain fb where fb: "heap s (o2n_fds_info s ! j) = Some fb" by blast
    show ?thesis
    proof (cases "j = nat (fds_index fi)")
      case True
      with k fb fi have "fb = fi" by simp
      with True k f fb fds1 [OF j] show ?thesis
        by (auto simp: close_effect_simps)
    next
      case False
      with pos [OF j] have ne: "o2n_fds_info s ! j \<noteq> a" by simp
      with f(1) fb have "f1 = fb" by (simp add: close_effect_simps)
      with False ne f fb fds1 [OF j] show ?thesis by auto
    qed
  qed
  from run s'(2,3,4,5) heap_other each show ?case
    by (simp add: close_effect_simps)
qed


lemma unregister_heap_cases:
  assumes "heap (unregister i s) b = Some fu"
  shows "\<exists>fb. heap s b = Some fb \<and> (fu = fb \<or> fu = fb\<lparr>fds_index := int i\<rparr>)"
  using assms by (auto simp: unregister_def split: if_splits)

lemma unregister_heap_other:
  assumes "b \<notin> set (o2n_fds_info s)" "i < length (o2n_fds_info s)"
  shows "heap (unregister i s) b = heap s b"
proof -
  from assms(2) have "o2n_fds_info s \<noteq> []" by auto
  then have "last (o2n_fds_info s) \<in> set (o2n_fds_info s)" by (rule last_in_set)
  with assms(1) have "b \<noteq> last (o2n_fds_info s)" by auto
  then show ?thesis by (simp add: unregister_def)
qed

lemma unregister_fds:
  assumes "registry_inv s" "i < length (o2n_fds_info s)"
  shows "o2n_fds (unregister i s) = butlast ((o2n_fds s)[i := last (o2n_fds s)])"
proof -
  have len: "length (o2n_fds s) = length (o2n_fds_info s)"
    using assms(1) by (simp add: registry_inv_alt)
  show ?thesis
    using assms(2) len by (simp add: unregister_def list_update_last_id)
qed

lemma delete_effect:
  assumes "registry_inv s" "closed_inv s" "hooks_ok E" "i < length (o2n_fds_info s)"
    "heap s (o2n_fds_info s ! i) = Some fi" "net_tag fi = NET_INFO_CLOSED"
  shows "\<exists>s' hs. delete_Fds_info E (o2n_fds_info s ! i) s = Inr s' \<and>
           registry_inv s' \<and> closed_inv s' \<and>
           o2n_fds_info s' = butlast ((o2n_fds_info s)[i := last (o2n_fds_info s)]) \<and>
           calls s' = calls s @ (case owner fi of None \<Rightarrow> [] | Some ow \<Rightarrow> [Removed ow]) \<and>
           (case owner fi of None \<Rightarrow> hs = [] | Some ow \<Rightarrow> \<exists>st. hs = on_remove E ow st) \<and>
           heap s' (o2n_fds_info s ! i) = None \<and>
           (\<forall>b. b \<notin> set (o2n_fds_info s) \<longrightarrow> heap s' b = heap s b) \<and>
           (\<forall>j < length (o2n_fds_info s'). \<exists>fb fb'.
              heap s (o2n_fds_info s' ! j) = Some fb \<and>
              heap s' (o2n_fds_info s' ! j) = Some fb' \<and>
              fds_index fb' = int j \<and> owner fb' = owner fb \<and>
              (delete_me fb \<longrightarrow> delete_me fb') \<and>
              (o2n_fds_info s' ! j \<in> set hs \<longrightarrow> delete_me fb') \<and>
              (o2n_fds_info s' ! j \<notin> set hs \<longrightarrow>
                 fb' = fb\<lparr>fds_index := int j\<rparr> \<and>
                 o2n_fds s' ! j = butlast ((o2n_fds s)[i := last (o2n_fds s)]) ! j) \<and>
              (o2n_fds s' ! j = butlast ((o2n_fds s)[i := last (o2n_fds s)]) ! j \<or>
               o2n_fds s' ! j =
                 (butlast ((o2n_fds s)[i := last (o2n_fds s)]) ! j)\<lparr>fd := INVALID_SOCKET\<rparr>))"
proof -
  let ?a = "o2n_fds_info s ! i"
  let ?u = "unregister i s"
  let ?I = "butlast ((o2n_fds_info s)[i := last (o2n_fds_info s)])"
  let ?D = "butlast ((o2n_fds s)[i := last (o2n_fds s)])"
  have ru: "registry_inv ?u" by (rule registry_inv_unregister [OF assms(1,4)])
  have cu: "closed_inv ?u" by (rule closed_inv_unregister [OF assms(1,2,4)])
  have iu: "o2n_fds_info ?u = ?I" by (rule unregister_fds_info [OF assms(1,4)])
  have du: "o2n_fds ?u = ?D" by (rule unregister_fds [OF assms(1,4)])
  have nu: "?a \<notin> set ?I" using unregister_set [OF assms(1,4)] iu by simp
  have sub: "set ?I \<subseteq> set (o2n_fds_info s)" by (rule set_swap_last_subset)
  have hu: "\<exists>fb. heap s (?I ! j) = Some fb \<and> heap ?u (?I ! j) = Some (fb\<lparr>fds_index := int j\<rparr>)"
    if j: "j < length ?I" for j
  proof -
    from registry_inv_nth [OF ru] j iu
    obtain fu where fu: "heap ?u (?I ! j) = Some fu" "fds_index fu = int j" by auto
    from unregister_heap_cases [OF fu(1)]
    obtain fb where fb: "heap s (?I ! j) = Some fb" "fu = fb \<or> fu = fb\<lparr>fds_index := int i\<rparr>"
      by blast
    from fb(2) fu(2) have "fu = fb\<lparr>fds_index := int j\<rparr>" by auto
    with fb(1) fu(1) show ?thesis by simp
  qed
  have "\<exists>c hs. Fds_info_dtor E ?a s = Inr c \<and> registry_inv c \<and> closed_inv c \<and>
          o2n_fds_info c = ?I \<and>
          calls c = calls s @ (case owner fi of None \<Rightarrow> [] | Some ow \<Rightarrow> [Removed ow]) \<and>
          (case owner fi of None \<Rightarrow> hs = [] | Some ow \<Rightarrow> \<exists>st. hs = on_remove E ow st) \<and>
          (\<forall>b. b \<notin> set hs \<longrightarrow> heap c b = heap ?u b) \<and> set hs \<subseteq> set ?I \<and>
          (\<forall>j < length ?I. \<exists>fb fb'.
              heap ?u (?I ! j) = Some fb \<and> heap c (?I ! j) = Some fb' \<and>
              fds_index fb' = fds_index fb \<and> owner fb' = owner fb \<and>
              (delete_me fb \<longrightarrow> delete_me fb') \<and>
              (?I ! j \<in> set hs \<longrightarrow> delete_me fb') \<and>
              (?I ! j \<notin> set hs \<longrightarrow> o2n_fds c ! j = ?D ! j) \<and>
              (o2n_fds c ! j = ?D ! j \<or> o2n_fds c ! j = (?D ! j)\<lparr>fd := INVALID_SOCKET\<rparr>))"
  proof (cases "owner fi")
    case None
    have "\<forall>j < length ?I. \<exists>fb. heap ?u (?I ! j) = Some fb" using hu by blast
    with None ru cu iu du show ?thesis
      by (intro exI [of _ ?u] exI [of _ "[]"])
        (auto simp: Fds_info_dtor_eq [OF assms(1,4,5,6)] unregister_simps)
  next
    case (Some ow)
    let ?u1 = "?u\<lparr>calls := calls ?u @ [Removed ow]\<rparr>"
    have r1: "registry_inv ?u1" and c1: "closed_inv ?u1" using ru cu by simp_all
    have s1: "set (on_remove E ow ?u1) \<subseteq> set (o2n_fds_info ?u1)"
      using assms(3) unfolding hooks_ok_def by blast
    from close_all_effect [OF r1 c1 s1]
    obtain c where c: "close_all (on_remove E ow ?u1) ?u1 = Inr c" "registry_inv c"
        "closed_inv c" "o2n_fds_info c = o2n_fds_info ?u1" "calls c = calls ?u1"
        "\<forall>b. b \<notin> set (on_remove E ow ?u1) \<longrightarrow> heap c b = heap ?u1 b"
        "\<forall>j < length (o2n_fds_info ?u1). \<exists>fb fb'.
              heap ?u1 (o2n_fds_info ?u1 ! j) = Some fb \<and>
              heap c (o2n_fds_info ?u1 ! j) = Some fb' \<and>
              fds_index fb' = fds_index fb \<and> owner fb' = owner fb \<and>
              (delete_me fb \<longrightarrow> delete_me fb') \<and>
              (o2n_fds_info ?u1 ! j \<in> set (on_remove E ow ?u1) \<longrightarrow> delete_me fb') \<and>
              (o2n_fds_info ?u1 ! j \<notin> set (on_remove E ow ?u1) \<longrightarrow>
                 o2n_fds c ! j = o2n_fds ?u1 ! j) \<and>
              (o2n_fds c ! j = o2n_fds ?u1 ! j \<or>
               o2n_fds c ! j = (o2n_fds ?u1 ! j)\<lparr>fd := INVALID_SOCKET\<rparr>)"
      by blast
    have e1: "o2n_fds_info ?u1 = ?I" "o2n_fds ?u1 = ?D" "heap ?u1 = heap ?u"
        "calls ?u1 = calls s @ [Removed ow]"
      using iu du by (simp_all add: unregister_simps)
    have dt: "Fds_info_dtor E ?a s = Inr c"
      using Some c(1) by (simp add: Fds_info_dtor_eq [OF assms(1,4,5,6)] owner_remove_def)
    from c(2-7) s1 show ?thesis
      unfolding e1 using Some dt
      by (intro exI [of _ c] exI [of _ "on_remove E ow ?u1"]) auto
  qed
  then obtain c hs where c: "Fds_info_dtor E ?a s = Inr c" "registry_inv c" "closed_inv c"
      "o2n_fds_info c = ?I"
      "calls c = calls s @ (case owner fi of None \<Rightarrow> [] | Some ow \<Rightarrow> [Removed ow])"
      "case owner fi of None \<Rightarrow> hs = [] | Some ow \<Rightarrow> \<exists>st. hs = on_remove E ow st"
      "\<forall>b. b \<notin> set hs \<longrightarrow> heap c b = heap ?u b" "set hs \<subseteq> set ?I"
      "\<forall>j < length ?I. \<exists>fb fb'.
              heap ?u (?I ! j) = Some fb \<and> heap c (?I ! j) = Some fb' \<and>
              fds_index fb' = fds_index fb \<and> owner fb' = owner fb \<and>
              (delete_me fb \<longrightarrow> delete_me fb') \<and>
              (?I ! j \<in> set hs \<longrightarrow> delete_me fb') \<and>
              (?I ! j \<notin> set hs \<longrightarrow> o2n_fds c ! j = ?D ! j) \<and>
              (o2n_fds c ! j = ?D ! j \<or> o2n_fds c ! j = (?D ! j)\<lparr>fd := INVALID_SOCKET\<rparr>)"
    by blast
  let ?s' = "c\<lparr>heap := (heap c)(?a := None)\<rparr>"
  have n2: "?a \<notin> set (o2n_fds_info c)" using nu c(4) by simp
  have del: "delete_Fds_info E ?a s = Inr ?s'" using c(1) by (simp add: delete_Fds_info_def)
  have r': "registry_inv ?s'" by (rule registry_inv_dealloc [OF c(2) n2])
  have c': "closed_inv ?s'" by (rule closed_inv_dealloc [OF c(3) n2])
  have other: "\<forall>b. b \<notin> set (o2n_fds_info s) \<longrightarrow> heap ?s' b = heap s b"
  proof (intro allI impI)
    fix b assume b: "b \<notin> set (o2n_fds_info s)"
    with assms(4) have ba: "b \<noteq> ?a" by auto
    from b sub c(8) have "b \<notin> set hs" by auto
    with c(7) have "heap c b = heap ?u b" by simp
    with ba unregister_heap_other [OF b assms(4)] show "heap ?s' b = heap s b" by simp
  qed
  have each: "\<exists>fb fb'.
              heap s (?I ! j) = Some fb \<and> heap ?s' (?I ! j) = Some fb' \<and>
              fds_index fb' = int j \<and> owner fb' = owner fb \<and>
              (delete_me fb \<longrightarrow> delete_me fb') \<and>
              (?I ! j \<in> set hs \<longrightarrow> delete_me fb') \<and>
              (?I ! j \<notin> set hs \<longrightarrow>
                 fb' = fb\<lparr>fds_index := int j\<rparr> \<and> o2n_fds ?s' ! j = ?D ! j) \<and>
              (o2n_fds ?s' ! j = ?D ! j \<or>
               o2n_fds ?s' ! j = (?D ! j)\<lparr>fd := INVALID_SOCKET\<rparr>)"
    if j: "j < length ?I" for j
  proof -
    from hu [OF j] obtain fb where fb: "heap s (?I ! j) = Some fb"
        "heap ?u (?I ! j) = Some (fb\<lparr>fds_index := int j\<rparr>)"
      by blast
    from c(9) j fb(2) obtain fb' where fb': "heap c (?I ! j) = Some fb'"
        "fds_index fb' = int j" "owner fb' = owner fb" "delete_me fb \<longrightarrow> delete_me fb'"
        "?I ! j \<in> set hs \<longrightarrow> delete_me fb'"
        "?I ! j \<notin> set hs \<longrightarrow> o2n_fds c ! j = ?D ! j"
        "o2n_fds c ! j = ?D ! j \<or> o2n_fds c ! j = (?D ! j)\<lparr>fd := INVALID_SOCKET\<rparr>"
      by fastforce
    from j nu have ne: "?I ! j \<noteq> ?a" by (metis nth_mem)
    have same: "?I ! j \<notin> set hs \<longrightarrow> fb' = fb\<lparr>fds_index := int j\<rparr>"
      using c(7) fb(2) fb'(1) by auto
    from fb(1) fb' ne same show ?thesis by simp
  qed
  show ?thesis
    using del r' c' c(4,5,6) other each
    by (intro exI [of _ ?s'] exI [of _ hs]) simp
qed

text \<open>
  What a part of the sweep does, from \<open>s\<close> to \<open>s'\<close>, with \<open>evs\<close> the calls it makes to
  owners: only \<^verbatim>\<open>remove()\<close> is called, once for every removed connection that has an
  owner, and the connections its hook names are marked if they are still registered;
  objects outside the registry are untouched; a connection that is still registered is
  either marked (it was before, or a hook named it) or is the same object but for its
  index, with the same descriptor; a connection that is no longer registered is
  deallocated, was marked or named by a hook, and its owner was notified.
\<close>

definition swept :: "env \<Rightarrow> net \<Rightarrow> net \<Rightarrow> event list \<Rightarrow> bool" where
  "swept E s s' evs =
     (calls s' = calls s @ evs \<and>
      set (o2n_fds_info s') \<subseteq> set (o2n_fds_info s) \<and>
      (\<forall>a. a \<notin> set (o2n_fds_info s) \<longrightarrow> heap s' a = heap s a) \<and>
      (\<forall>e \<in> set evs. \<exists>a fa ow st.
          e = Removed ow \<and> a \<in> set (o2n_fds_info s) \<and> a \<notin> set (o2n_fds_info s') \<and>
          heap s a = Some fa \<and> owner fa = Some ow \<and>
          (\<forall>b \<in> set (on_remove E ow st). b \<in> set (o2n_fds_info s') \<longrightarrow>
             (\<exists>fb. heap s' b = Some fb \<and> delete_me fb))) \<and>
      length evs = card {a \<in> set (o2n_fds_info s) - set (o2n_fds_info s').
                          \<exists>fa ow. heap s a = Some fa \<and> owner fa = Some ow} \<and>
      (\<forall>a \<in> set (o2n_fds_info s'). \<exists>fa fa'.
          heap s a = Some fa \<and> heap s' a = Some fa' \<and> owner fa' = owner fa \<and>
          (delete_me fa \<longrightarrow> delete_me fa') \<and>
          (if delete_me fa'
           then delete_me fa \<or> (\<exists>ow st. Removed ow \<in> set evs \<and> a \<in> set (on_remove E ow st))
           else fa' = fa\<lparr>fds_index := fds_index fa'\<rparr> \<and>
                o2n_fds s' ! nat (fds_index fa') = o2n_fds s ! nat (fds_index fa))) \<and>
      (\<forall>a \<in> set (o2n_fds_info s) - set (o2n_fds_info s').
          heap s' a = None \<and>
          (\<exists>fa. heap s a = Some fa \<and>
             (delete_me fa \<or> (\<exists>ow st. Removed ow \<in> set evs \<and> a \<in> set (on_remove E ow st))) \<and>
             (\<forall>ow. owner fa = Some ow \<longrightarrow> Removed ow \<in> set evs))))"

lemma swept_refl:
  assumes "registry_inv s"
  shows "swept E s s []"
proof -
  have "\<exists>fa fa'. heap s a = Some fa \<and> heap s a = Some fa' \<and> owner fa' = owner fa \<and>
          (delete_me fa \<longrightarrow> delete_me fa') \<and>
          (if delete_me fa'
           then delete_me fa \<or>
                (\<exists>ow st. Removed ow \<in> set [] \<and> a \<in> set (on_remove E ow st))
           else fa' = fa\<lparr>fds_index := fds_index fa'\<rparr> \<and>
                o2n_fds s ! nat (fds_index fa') = o2n_fds s ! nat (fds_index fa))"
    if "a \<in> set (o2n_fds_info s)" for a
  proof -
    from that assms obtain fa where "heap s a = Some fa"
      by (auto simp: in_set_conv_nth registry_inv_alt)
    then show ?thesis by (intro exI [of _ fa]) simp
  qed
  then show ?thesis unfolding swept_def by simp
qed

lemma swept_flag [simp]:
  "swept E (s\<lparr>o2n_socket_delete_flag := b\<rparr>) s' evs = swept E s s' evs"
  by (simp add: swept_def)

lemma swept_trans:
  assumes A: "swept E s s1 e1" and B: "swept E s1 s2 e2"
  shows "swept E s s2 (e1 @ e2)"
proof -
  let ?I = "set (o2n_fds_info s)" and ?I1 = "set (o2n_fds_info s1)"
    and ?I2 = "set (o2n_fds_info s2)"
  from A have a1: "calls s1 = calls s @ e1" and a2: "?I1 \<subseteq> ?I"
    and a3: "\<And>a. a \<notin> ?I \<Longrightarrow> heap s1 a = heap s a"
    and a4: "\<And>e. e \<in> set e1 \<Longrightarrow> \<exists>a fa ow st.
          e = Removed ow \<and> a \<in> ?I \<and> a \<notin> ?I1 \<and> heap s a = Some fa \<and> owner fa = Some ow \<and>
          (\<forall>b \<in> set (on_remove E ow st). b \<in> ?I1 \<longrightarrow> (\<exists>fb. heap s1 b = Some fb \<and> delete_me fb))"
    and a5: "length e1 = card {a \<in> ?I - ?I1. \<exists>fa ow. heap s a = Some fa \<and> owner fa = Some ow}"
    and a6: "\<And>a. a \<in> ?I1 \<Longrightarrow> \<exists>fa fa'.
          heap s a = Some fa \<and> heap s1 a = Some fa' \<and> owner fa' = owner fa \<and>
          (delete_me fa \<longrightarrow> delete_me fa') \<and>
          (if delete_me fa'
           then delete_me fa \<or> (\<exists>ow st. Removed ow \<in> set e1 \<and> a \<in> set (on_remove E ow st))
           else fa' = fa\<lparr>fds_index := fds_index fa'\<rparr> \<and>
                o2n_fds s1 ! nat (fds_index fa') = o2n_fds s ! nat (fds_index fa))"
    and a7: "\<And>a. a \<in> ?I - ?I1 \<Longrightarrow> heap s1 a = None \<and>
          (\<exists>fa. heap s a = Some fa \<and>
             (delete_me fa \<or> (\<exists>ow st. Removed ow \<in> set e1 \<and> a \<in> set (on_remove E ow st))) \<and>
             (\<forall>ow. owner fa = Some ow \<longrightarrow> Removed ow \<in> set e1))"
    unfolding swept_def by blast+
  from B have b1: "calls s2 = calls s1 @ e2" and b2: "?I2 \<subseteq> ?I1"
    and b3: "\<And>a. a \<notin> ?I1 \<Longrightarrow> heap s2 a = heap s1 a"
    and b4: "\<And>e. e \<in> set e2 \<Longrightarrow> \<exists>a fa ow st.
          e = Removed ow \<and> a \<in> ?I1 \<and> a \<notin> ?I2 \<and> heap s1 a = Some fa \<and> owner fa = Some ow \<and>
          (\<forall>b \<in> set (on_remove E ow st). b \<in> ?I2 \<longrightarrow> (\<exists>fb. heap s2 b = Some fb \<and> delete_me fb))"
    and b5: "length e2 = card {a \<in> ?I1 - ?I2. \<exists>fa ow. heap s1 a = Some fa \<and> owner fa = Some ow}"
    and b6: "\<And>a. a \<in> ?I2 \<Longrightarrow> \<exists>fa fa'.
          heap s1 a = Some fa \<and> heap s2 a = Some fa' \<and> owner fa' = owner fa \<and>
          (delete_me fa \<longrightarrow> delete_me fa') \<and>
          (if delete_me fa'
           then delete_me fa \<or> (\<exists>ow st. Removed ow \<in> set e2 \<and> a \<in> set (on_remove E ow st))
           else fa' = fa\<lparr>fds_index := fds_index fa'\<rparr> \<and>
                o2n_fds s2 ! nat (fds_index fa') = o2n_fds s1 ! nat (fds_index fa))"
    and b7: "\<And>a. a \<in> ?I1 - ?I2 \<Longrightarrow> heap s2 a = None \<and>
          (\<exists>fa. heap s1 a = Some fa \<and>
             (delete_me fa \<or> (\<exists>ow st. Removed ow \<in> set e2 \<and> a \<in> set (on_remove E ow st))) \<and>
             (\<forall>ow. owner fa = Some ow \<longrightarrow> Removed ow \<in> set e2))"
    unfolding swept_def by blast+
  have c1: "calls s2 = calls s @ e1 @ e2" using a1 b1 by simp
  have c2: "?I2 \<subseteq> ?I" using a2 b2 by blast
  have c3: "\<forall>a. a \<notin> ?I \<longrightarrow> heap s2 a = heap s a"
    using a2 a3 b3 by (metis subsetD)
  have c4: "\<forall>e \<in> set (e1 @ e2). \<exists>a fa ow st.
          e = Removed ow \<and> a \<in> ?I \<and> a \<notin> ?I2 \<and> heap s a = Some fa \<and> owner fa = Some ow \<and>
          (\<forall>b \<in> set (on_remove E ow st). b \<in> ?I2 \<longrightarrow> (\<exists>fb. heap s2 b = Some fb \<and> delete_me fb))"
  proof
    fix e assume "e \<in> set (e1 @ e2)"
    then consider "e \<in> set e1" | "e \<in> set e2" by auto
    then show "\<exists>a fa ow st.
          e = Removed ow \<and> a \<in> ?I \<and> a \<notin> ?I2 \<and> heap s a = Some fa \<and> owner fa = Some ow \<and>
          (\<forall>b \<in> set (on_remove E ow st). b \<in> ?I2 \<longrightarrow> (\<exists>fb. heap s2 b = Some fb \<and> delete_me fb))"
    proof cases
      case 1
      from a4 [OF 1] obtain a fa ow st where h: "e = Removed ow" "a \<in> ?I" "a \<notin> ?I1"
          "heap s a = Some fa" "owner fa = Some ow"
          "\<forall>b \<in> set (on_remove E ow st). b \<in> ?I1 \<longrightarrow> (\<exists>fb. heap s1 b = Some fb \<and> delete_me fb)"
        by blast
      have "\<exists>fb. heap s2 b = Some fb \<and> delete_me fb"
        if "b \<in> set (on_remove E ow st)" "b \<in> ?I2" for b
      proof -
        from that b2 h(6) obtain f1 where "heap s1 b = Some f1" "delete_me f1" by blast
        with b6 [OF that(2)] show ?thesis by auto
      qed
      with h(1-5) b2 show ?thesis by blast
    next
      case 2
      from b4 [OF 2] obtain a f1 ow st where h: "e = Removed ow" "a \<in> ?I1" "a \<notin> ?I2"
          "heap s1 a = Some f1" "owner f1 = Some ow"
          "\<forall>b \<in> set (on_remove E ow st). b \<in> ?I2 \<longrightarrow> (\<exists>fb. heap s2 b = Some fb \<and> delete_me fb)"
        by blast
      from a6 [OF h(2)] h(4,5) obtain fa where "heap s a = Some fa" "owner fa = Some ow"
        by auto
      with h a2 show ?thesis by blast
    qed
  qed
  have c6: "\<forall>a \<in> ?I2. \<exists>fa fa'.
          heap s a = Some fa \<and> heap s2 a = Some fa' \<and> owner fa' = owner fa \<and>
          (delete_me fa \<longrightarrow> delete_me fa') \<and>
          (if delete_me fa'
           then delete_me fa \<or>
                (\<exists>ow st. Removed ow \<in> set (e1 @ e2) \<and> a \<in> set (on_remove E ow st))
           else fa' = fa\<lparr>fds_index := fds_index fa'\<rparr> \<and>
                o2n_fds s2 ! nat (fds_index fa') = o2n_fds s ! nat (fds_index fa))"
  proof
    fix a assume a: "a \<in> ?I2"
    with b2 have a': "a \<in> ?I1" by blast
    from a6 [OF a'] obtain fa f1 where p: "heap s a = Some fa" "heap s1 a = Some f1"
        "owner f1 = owner fa" "delete_me fa \<longrightarrow> delete_me f1"
        "if delete_me f1
         then delete_me fa \<or> (\<exists>ow st. Removed ow \<in> set e1 \<and> a \<in> set (on_remove E ow st))
         else f1 = fa\<lparr>fds_index := fds_index f1\<rparr> \<and>
              o2n_fds s1 ! nat (fds_index f1) = o2n_fds s ! nat (fds_index fa)"
      by blast
    from b6 [OF a] p(2) obtain f2 where q: "heap s2 a = Some f2"
        "owner f2 = owner f1" "delete_me f1 \<longrightarrow> delete_me f2"
        "if delete_me f2
         then delete_me f1 \<or> (\<exists>ow st. Removed ow \<in> set e2 \<and> a \<in> set (on_remove E ow st))
         else f2 = f1\<lparr>fds_index := fds_index f2\<rparr> \<and>
              o2n_fds s2 ! nat (fds_index f2) = o2n_fds s1 ! nat (fds_index f1)"
      by auto
    show "\<exists>fa fa'.
          heap s a = Some fa \<and> heap s2 a = Some fa' \<and> owner fa' = owner fa \<and>
          (delete_me fa \<longrightarrow> delete_me fa') \<and>
          (if delete_me fa'
           then delete_me fa \<or>
                (\<exists>ow st. Removed ow \<in> set (e1 @ e2) \<and> a \<in> set (on_remove E ow st))
           else fa' = fa\<lparr>fds_index := fds_index fa'\<rparr> \<and>
                o2n_fds s2 ! nat (fds_index fa') = o2n_fds s ! nat (fds_index fa))"
    proof (cases "delete_me f2")
      case True
      with q(4) p(5) have "delete_me fa \<or>
          (\<exists>ow st. Removed ow \<in> set (e1 @ e2) \<and> a \<in> set (on_remove E ow st))"
        by (cases "delete_me f1") auto
      with True p q show ?thesis by simp
    next
      case False
      with q(3) have n1: "\<not> delete_me f1" by blast
      from False q(4) have e2: "f2 = f1\<lparr>fds_index := fds_index f2\<rparr>"
          "o2n_fds s2 ! nat (fds_index f2) = o2n_fds s1 ! nat (fds_index f1)"
        by simp_all
      from n1 p(5) have e1: "f1 = fa\<lparr>fds_index := fds_index f1\<rparr>"
          "o2n_fds s1 ! nat (fds_index f1) = o2n_fds s ! nat (fds_index fa)"
        by simp_all
      have "f2 = fa\<lparr>fds_index := fds_index f2\<rparr>"
        by (subst e2(1), subst e1(1)) simp
      with False p q e1(2) e2(2) show ?thesis by simp
    qed
  qed
  have c7: "\<forall>a \<in> ?I - ?I2. heap s2 a = None \<and>
          (\<exists>fa. heap s a = Some fa \<and>
             (delete_me fa \<or>
              (\<exists>ow st. Removed ow \<in> set (e1 @ e2) \<and> a \<in> set (on_remove E ow st))) \<and>
             (\<forall>ow. owner fa = Some ow \<longrightarrow> Removed ow \<in> set (e1 @ e2)))"
  proof
    fix a assume a: "a \<in> ?I - ?I2"
    show "heap s2 a = None \<and>
          (\<exists>fa. heap s a = Some fa \<and>
             (delete_me fa \<or>
              (\<exists>ow st. Removed ow \<in> set (e1 @ e2) \<and> a \<in> set (on_remove E ow st))) \<and>
             (\<forall>ow. owner fa = Some ow \<longrightarrow> Removed ow \<in> set (e1 @ e2)))"
    proof (cases "a \<in> ?I1")
      case False
      with a have "a \<in> ?I - ?I1" by simp
      from a7 [OF this] b3 [OF False] show ?thesis by auto
    next
      case True
      with a have "a \<in> ?I1 - ?I2" by simp
      from b7 [OF this] obtain f1 where q: "heap s2 a = None" "heap s1 a = Some f1"
          "delete_me f1 \<or> (\<exists>ow st. Removed ow \<in> set e2 \<and> a \<in> set (on_remove E ow st))"
          "\<forall>ow. owner f1 = Some ow \<longrightarrow> Removed ow \<in> set e2"
        by blast
      from a6 [OF True] obtain fa fx where px: "heap s a = Some fa" "heap s1 a = Some fx"
          "owner fx = owner fa"
          "if delete_me fx
           then delete_me fa \<or> (\<exists>ow st. Removed ow \<in> set e1 \<and> a \<in> set (on_remove E ow st))
           else fx = fa\<lparr>fds_index := fds_index fx\<rparr> \<and>
                o2n_fds s1 ! nat (fds_index fx) = o2n_fds s ! nat (fds_index fa)"
        by blast
      from px(2) q(2) have fx: "fx = f1" by simp
      have p: "heap s a = Some fa" "owner f1 = owner fa"
          "delete_me f1 \<longrightarrow>
             delete_me fa \<or> (\<exists>ow st. Removed ow \<in> set e1 \<and> a \<in> set (on_remove E ow st))"
        using px fx by auto
      from q(3) p(3) have "delete_me fa \<or>
          (\<exists>ow st. Removed ow \<in> set (e1 @ e2) \<and> a \<in> set (on_remove E ow st))"
        by (cases "delete_me f1") auto
      with q(1,4) p(1,2) show ?thesis by auto
    qed
  qed
  have c5: "length (e1 @ e2) =
      card {a \<in> ?I - ?I2. \<exists>fa ow. heap s a = Some fa \<and> owner fa = Some ow}"
  proof -
    let ?A = "{a \<in> ?I - ?I1. \<exists>fa ow. heap s a = Some fa \<and> owner fa = Some ow}"
    let ?B = "{a \<in> ?I1 - ?I2. \<exists>fa ow. heap s1 a = Some fa \<and> owner fa = Some ow}"
    have own: "(\<exists>fa ow. heap s1 a = Some fa \<and> owner fa = Some ow) \<longleftrightarrow>
               (\<exists>fa ow. heap s a = Some fa \<and> owner fa = Some ow)"
      if "a \<in> ?I1" for a
      using a6 [OF that] by (metis option.inject)
    have "{a \<in> ?I - ?I2. \<exists>fa ow. heap s a = Some fa \<and> owner fa = Some ow} = ?A \<union> ?B"
    proof (rule set_eqI)
      fix x
      show "x \<in> {a \<in> ?I - ?I2. \<exists>fa ow. heap s a = Some fa \<and> owner fa = Some ow} \<longleftrightarrow>
            x \<in> ?A \<union> ?B"
      proof (cases "x \<in> ?I1")
        case True
        with own [OF True] a2 show ?thesis by blast
      next
        case False
        with b2 show ?thesis by blast
      qed
    qed
    moreover have "?A \<inter> ?B = {}" by auto
    moreover have "finite ?A" "finite ?B" by simp_all
    ultimately show ?thesis using a5 b5 by (simp add: card_Un_disjoint)
  qed
  from c1 c2 c3 c4 c5 c6 c7 show ?thesis unfolding swept_def by blast
qed


lemma delete_swept:
  assumes "registry_inv s" "closed_inv s" "hooks_ok E" "i < length (o2n_fds_info s)"
    "heap s (o2n_fds_info s ! i) = Some fi" "net_tag fi = NET_INFO_CLOSED" "delete_me fi"
  shows "\<exists>s'. delete_Fds_info E (o2n_fds_info s ! i) s = Inr s' \<and>
           registry_inv s' \<and> closed_inv s' \<and>
           swept E s s' (case owner fi of None \<Rightarrow> [] | Some ow \<Rightarrow> [Removed ow])"
proof -
  let ?a = "o2n_fds_info s ! i"
  let ?I = "o2n_fds_info s"
  let ?I' = "butlast ((o2n_fds_info s)[i := last (o2n_fds_info s)])"
  let ?D = "butlast ((o2n_fds s)[i := last (o2n_fds s)])"
  let ?evs = "case owner fi of None \<Rightarrow> [] | Some ow \<Rightarrow> [Removed ow]"
  from delete_effect [OF assms(1-6)]
  obtain s' hs where s': "delete_Fds_info E ?a s = Inr s'" "registry_inv s'" "closed_inv s'"
      "o2n_fds_info s' = ?I'" "calls s' = calls s @ ?evs"
      "case owner fi of None \<Rightarrow> hs = [] | Some ow \<Rightarrow> \<exists>st. hs = on_remove E ow st"
      "heap s' ?a = None" "\<forall>b. b \<notin> set ?I \<longrightarrow> heap s' b = heap s b"
      "\<forall>j < length (o2n_fds_info s'). \<exists>fb fb'.
              heap s (o2n_fds_info s' ! j) = Some fb \<and>
              heap s' (o2n_fds_info s' ! j) = Some fb' \<and>
              fds_index fb' = int j \<and> owner fb' = owner fb \<and>
              (delete_me fb \<longrightarrow> delete_me fb') \<and>
              (o2n_fds_info s' ! j \<in> set hs \<longrightarrow> delete_me fb') \<and>
              (o2n_fds_info s' ! j \<notin> set hs \<longrightarrow>
                 fb' = fb\<lparr>fds_index := int j\<rparr> \<and> o2n_fds s' ! j = ?D ! j) \<and>
              (o2n_fds s' ! j = ?D ! j \<or>
               o2n_fds s' ! j = (?D ! j)\<lparr>fd := INVALID_SOCKET\<rparr>)"
    by blast
  have len: "length (o2n_fds s) = length ?I" using assms(1) by (simp add: registry_inv_alt)
  have d: "distinct ?I" by (rule registry_inv_distinct [OF assms(1)])
  have set': "set (o2n_fds_info s') = set ?I - {?a}"
    using unregister_set [OF assms(1,4)] unregister_fds_info [OF assms(1,4)] s'(4) by simp
  have ain: "?a \<in> set ?I" using assms(4) by simp
  have gone: "set ?I - set (o2n_fds_info s') = {?a}" using set' ain by auto
  have hk: "b \<in> set hs \<Longrightarrow>
      \<exists>ow st. Removed ow \<in> set ?evs \<and> b \<in> set (on_remove E ow st)" for b
    using s'(6) by (cases "owner fi") auto
  have c4: "\<forall>e \<in> set ?evs. \<exists>a fa ow st.
          e = Removed ow \<and> a \<in> set ?I \<and> a \<notin> set (o2n_fds_info s') \<and>
          heap s a = Some fa \<and> owner fa = Some ow \<and>
          (\<forall>b \<in> set (on_remove E ow st). b \<in> set (o2n_fds_info s') \<longrightarrow>
             (\<exists>fb. heap s' b = Some fb \<and> delete_me fb))"
  proof (cases "owner fi")
    case None
    then show ?thesis by simp
  next
    case (Some ow)
    with s'(6) obtain st where st: "hs = on_remove E ow st" by auto
    have "\<exists>fb. heap s' b = Some fb \<and> delete_me fb"
      if "b \<in> set (on_remove E ow st)" "b \<in> set (o2n_fds_info s')" for b
    proof -
      from that(2) obtain j where j: "j < length (o2n_fds_info s')" "o2n_fds_info s' ! j = b"
        by (auto simp: in_set_conv_nth)
      with s'(9) that(1) st show ?thesis by fastforce
    qed
    then have "\<exists>a fa ow' st.
          Removed ow = Removed ow' \<and> a \<in> set ?I \<and> a \<notin> set (o2n_fds_info s') \<and>
          heap s a = Some fa \<and> owner fa = Some ow' \<and>
          (\<forall>b \<in> set (on_remove E ow' st). b \<in> set (o2n_fds_info s') \<longrightarrow>
             (\<exists>fb. heap s' b = Some fb \<and> delete_me fb))"
      using Some ain set' assms(5)
      by (intro exI [of _ ?a] exI [of _ fi] exI [of _ ow] exI [of _ st]) simp
    with Some show ?thesis by simp
  qed
  have c5: "length ?evs =
      card {a \<in> set ?I - set (o2n_fds_info s'). \<exists>fa ow. heap s a = Some fa \<and> owner fa = Some ow}"
  proof (cases "owner fi")
    case None
    with assms(5) have "{a \<in> {?a}. \<exists>fa ow. heap s a = Some fa \<and> owner fa = Some ow} = {}"
      by auto
    with None show ?thesis unfolding gone by simp
  next
    case (Some ow)
    with assms(5) have "{a \<in> {?a}. \<exists>fa ow. heap s a = Some fa \<and> owner fa = Some ow} = {?a}"
      by auto
    with Some show ?thesis unfolding gone by simp
  qed
  have c6: "\<forall>b \<in> set (o2n_fds_info s'). \<exists>fa fa'.
          heap s b = Some fa \<and> heap s' b = Some fa' \<and> owner fa' = owner fa \<and>
          (delete_me fa \<longrightarrow> delete_me fa') \<and>
          (if delete_me fa'
           then delete_me fa \<or> (\<exists>ow st. Removed ow \<in> set ?evs \<and> b \<in> set (on_remove E ow st))
           else fa' = fa\<lparr>fds_index := fds_index fa'\<rparr> \<and>
                o2n_fds s' ! nat (fds_index fa') = o2n_fds s ! nat (fds_index fa))"
  proof
    fix b assume b: "b \<in> set (o2n_fds_info s')"
    then obtain j where j: "j < length (o2n_fds_info s')" "o2n_fds_info s' ! j = b"
      by (auto simp: in_set_conv_nth)
    from s'(9) j obtain fb fb' where f: "heap s b = Some fb" "heap s' b = Some fb'"
        "fds_index fb' = int j" "owner fb' = owner fb" "delete_me fb \<longrightarrow> delete_me fb'"
        "b \<in> set hs \<longrightarrow> delete_me fb'"
        "b \<notin> set hs \<longrightarrow> fb' = fb\<lparr>fds_index := int j\<rparr> \<and> o2n_fds s' ! j = ?D ! j"
      by blast
    from j(1) s'(4) have j': "j < length ?I - 1" by simp
    from b set' have bI: "b \<in> set ?I" by simp
    from registry_inv_lookup [OF assms(1) bI f(1)]
    have k: "?I ! nat (fds_index fb) = b" "nat (fds_index fb) < length ?I" by simp_all
    have at: "?I' ! j = (if j = i then last ?I else ?I ! j)"
      using assms(4) j' by (simp add: nth_swap_last)
    have dat: "?D ! j = (if j = i then last (o2n_fds s) else o2n_fds s ! j)"
      using assms(4) j' len by (simp add: nth_swap_last)
    have ne: "?I \<noteq> []" "o2n_fds s \<noteq> []" using assms(4) len by auto
    have desc: "?D ! j = o2n_fds s ! nat (fds_index fb)"
    proof (cases "j = i")
      case True
      with at j(2) s'(4) have "?I ! (length ?I - 1) = b" using ne by (simp add: last_conv_nth)
      moreover have "length ?I - 1 < length ?I" using ne by simp
      ultimately have "nat (fds_index fb) = length ?I - 1"
        using k nth_eq_iff_index_eq [OF d, of "nat (fds_index fb)" "length ?I - 1"] by simp
      with True dat ne len show ?thesis by (simp add: last_conv_nth)
    next
      case False
      with at j(2) s'(4) have "?I ! j = b" by simp
      moreover have "j < length ?I" using j' by simp
      ultimately have "nat (fds_index fb) = j"
        using k nth_eq_iff_index_eq [OF d, of "nat (fds_index fb)" j] by simp
      with False dat show ?thesis by simp
    qed
    show "\<exists>fa fa'.
          heap s b = Some fa \<and> heap s' b = Some fa' \<and> owner fa' = owner fa \<and>
          (delete_me fa \<longrightarrow> delete_me fa') \<and>
          (if delete_me fa'
           then delete_me fa \<or> (\<exists>ow st. Removed ow \<in> set ?evs \<and> b \<in> set (on_remove E ow st))
           else fa' = fa\<lparr>fds_index := fds_index fa'\<rparr> \<and>
                o2n_fds s' ! nat (fds_index fa') = o2n_fds s ! nat (fds_index fa))"
    proof (cases "b \<in> set hs")
      case True
      with f(6) have "delete_me fb'" by simp
      with f(1,2,4,5) hk [OF True] show ?thesis
        by (intro exI [of _ fb] exI [of _ fb']) simp
    next
      case False
      with f(7) have e: "fb' = fb\<lparr>fds_index := int j\<rparr>" "o2n_fds s' ! j = ?D ! j" by simp_all
      from e(1) have dm: "delete_me fb' = delete_me fb" by simp
      have "fb' = fb\<lparr>fds_index := fds_index fb'\<rparr>" using e(1) by simp
      with f(1,2,3,4) dm e(2) desc show ?thesis
        by (intro exI [of _ fb] exI [of _ fb']) simp
    qed
  qed
  have c7: "\<forall>a \<in> set ?I - set (o2n_fds_info s'). heap s' a = None \<and>
          (\<exists>fa. heap s a = Some fa \<and>
             (delete_me fa \<or> (\<exists>ow st. Removed ow \<in> set ?evs \<and> a \<in> set (on_remove E ow st))) \<and>
             (\<forall>ow. owner fa = Some ow \<longrightarrow> Removed ow \<in> set ?evs))"
    unfolding gone using s'(7) assms(5,7) by auto
  have "swept E s s' ?evs"
    unfolding swept_def using s'(5,8) set' c4 c5 c6 c7 by blast
  with s'(1,2,3) show ?thesis by blast
qed

lemma scan_deleted_swept:
  "hooks_ok E \<Longrightarrow> registry_inv s \<Longrightarrow> closed_inv s \<Longrightarrow>
   \<exists>s' evs. scan_deleted E i s = Inr s' \<and> registry_inv s' \<and> closed_inv s' \<and> swept E s s' evs"
proof (induction E i s rule: scan_deleted.induct)
  case (1 E i s)
  show ?case
  proof (cases "i < length (o2n_fds_info s)")
    case False
    with "1.prems" swept_refl [OF "1.prems"(2), of E] show ?thesis by auto
  next
    case True
    from registry_inv_nth [OF "1.prems"(2) True]
    obtain fi where fi: "heap s (o2n_fds_info s ! i) = Some fi" by blast
    show ?thesis
    proof (cases "delete_me fi")
      case False
      from "1.IH"(2) [OF True fi False "1.prems"] True fi False show ?thesis by simp
    next
      case dm: True
      from "1.prems"(3) True fi dm have cl: "net_tag fi = NET_INFO_CLOSED"
        unfolding closed_inv_def by blast
      from delete_swept [OF "1.prems"(2,3,1) True fi cl dm]
      obtain s1 where s1: "delete_Fds_info E (o2n_fds_info s ! i) s = Inr s1"
          "registry_inv s1" "closed_inv s1"
          "swept E s s1 (case owner fi of None \<Rightarrow> [] | Some ow \<Rightarrow> [Removed ow])"
        by blast
      from "1.IH"(1) [OF True fi dm s1(1) "1.prems"(1) s1(2,3)]
      obtain s' evs where s': "scan_deleted E i s1 = Inr s'" "registry_inv s'" "closed_inv s'"
          "swept E s1 s' evs"
        by blast
      have "scan_deleted E i s = Inr s'" using True fi dm s1(1) s'(1) by simp
      with s'(2,3) swept_trans [OF s1(4) s'(4)] show ?thesis by blast
    qed
  qed
qed

lemma sweep_swept:
  "hooks_ok E \<Longrightarrow> registry_inv s \<Longrightarrow> closed_inv s \<Longrightarrow>
   \<exists>s' evs. o2n_free_deleted_sockets E s = Inr s' \<and> registry_inv s' \<and> closed_inv s' \<and>
            swept E s s' evs"
proof (induction E s rule: o2n_free_deleted_sockets.induct)
  case (1 E s)
  show ?case
  proof (cases "o2n_socket_delete_flag s")
    case False
    with "1.prems" swept_refl [OF "1.prems"(2), of E] show ?thesis by auto
  next
    case True
    let ?s0 = "s\<lparr>o2n_socket_delete_flag := False\<rparr>"
    have r0: "registry_inv ?s0" using "1.prems"(2) by (simp add: registry_inv_alt)
    have c0: "closed_inv ?s0" using "1.prems"(3) by (simp add: closed_inv_def)
    from scan_deleted_swept [OF "1.prems"(1) r0 c0, of 0]
    obtain s1 e1 where s1: "scan_deleted E 0 ?s0 = Inr s1" "registry_inv s1" "closed_inv s1"
        "swept E s s1 e1"
      by auto
    from "1.IH" [OF True s1(1) "1.prems"(1) s1(2,3)]
    obtain s' e2 where s': "o2n_free_deleted_sockets E s1 = Inr s'" "registry_inv s'"
        "closed_inv s'" "swept E s1 s' e2"
      by blast
    have "o2n_free_deleted_sockets E s = Inr s'" using True s1(1) s'(1) by simp
    with s'(2,3) swept_trans [OF s1(4) s'(4)] show ?thesis by blast
  qed
qed

section \<open>The byte stream of an established connection\<close>

text \<open>
  Induction over the iterations of a send loop that returns.
\<close>

lemma send_loop_induct [consumes 1, case_names Return Again]:
  assumes "send_loop E block this k s = Some y"
    and "\<And>s r. send_iter E block this k s = Return r \<Longrightarrow> P s r"
    and "\<And>s s' y. send_iter E block this k s = Again s' \<Longrightarrow>
           send_loop E block this k s' = Some y \<Longrightarrow> P s' y \<Longrightarrow> P s y"
  shows "P s y"
proof -
  define Q where "Q E' b' t' k' s y \<longleftrightarrow>
      (E' = E \<and> b' = block \<and> t' = this \<and> k' = k \<longrightarrow>
        send_loop E block this k s = Some y \<and> P s y)" for E' b' t' k' s y
  have "Q E block this k s y"
  proof (rule send_loop.raw_induct [where P = Q, OF _ assms(1)])
    fix sl E' b' t' k' s y
    assume IH: "\<And>E' b' t' k' s y. sl E' b' t' k' s = Some y \<Longrightarrow> Q E' b' t' k' s y"
      and body: "(case send_iter E' b' t' k' s of Return r \<Rightarrow> Some r
                  | Again s' \<Rightarrow> sl E' b' t' k' s') = Some y"
    show "Q E' b' t' k' s y"
      unfolding Q_def
    proof (intro impI, elim conjE)
      assume eq: "E' = E" "b' = block" "t' = this" "k' = k"
      show "send_loop E block this k s = Some y \<and> P s y"
      proof (cases "send_iter E block this k s")
        case (Return r)
        with body eq have "r = y" by simp
        with Return assms(2) show ?thesis by (simp add: send_loop.simps [of E block this k s])
      next
        case (Again s')
        with body eq have "sl E block this k s' = Some y" by simp
        from IH [OF this] have "send_loop E block this k s' = Some y" "P s' y"
          by (simp_all add: Q_def)
        with Again assms(3) show ?thesis by (simp add: send_loop.simps [of E block this k s])
      qed
    qed
  qed
  then show ?thesis by (simp add: Q_def)
qed


text \<open>
  A message as \<^verbatim>\<open>send\<close> expects it: \<^verbatim>\<open>length\<close> is the number of payload bytes, and
  \<^verbatim>\<open>length + 4\<close> fits the \<^verbatim>\<open>int\<close> that \<^verbatim>\<open>send\<close> computes. \<open>frame m\<close> is the framing of
  \<open>m\<close>: the length as four bytes in network order, then the payload.
\<close>

definition msg_ok :: "o2n_message \<Rightarrow> bool" where
  "msg_ok m = (0 \<le> msg_length m \<and> msg_length m < 2 ^ 31 - 4 \<and>
               length (payload m) = nat (msg_length m))"

definition frame :: "o2n_message \<Rightarrow> byte list" where
  "frame m = mem_bytes (htonl (word_of_int (msg_length m))) @ payload m"

text \<open>
  The bytes of the output queue that the socket has not accepted yet, and the
  well-formedness of the queue: the offset \<^verbatim>\<open>out_msg_sent\<close> lies inside the framing of
  the head.
\<close>

definition pending :: "Fds_info \<Rightarrow> byte list" where
  "pending fi = drop (nat (out_msg_sent fi)) (concat (map frame (out_message fi)))"

definition queue_ok :: "Fds_info \<Rightarrow> bool" where
  "queue_ok fi =
     (list_all msg_ok (out_message fi) \<and> 0 \<le> out_msg_sent fi \<and>
      (case out_message fi of
         [] \<Rightarrow> out_msg_sent fi = 0
       | m # ms \<Rightarrow> out_msg_sent fi < int (length (frame m))))"

text \<open>
  An established framed TCP connection \<open>this\<close>, registered at index \<open>k\<close> with socket
  \<open>sock\<close>; \<open>W\<close> is the byte stream of the connection: what the socket has accepted
  followed by what is still queued.
\<close>

definition established :: "addr \<Rightarrow> nat \<Rightarrow> int \<Rightarrow> byte list \<Rightarrow> net \<Rightarrow> bool" where
  "established this k sock W s =
     (\<exists>fi. heap s this = Some fi \<and> fds_index fi = int k \<and>
           k < length (o2n_fds s) \<and> k < length (o2n_fds_info s) \<and>
           o2n_fds_info s ! k = this \<and> fd (o2n_fds s ! k) = sock \<and>
           (net_tag fi = NET_TCP_CLIENT \<or> net_tag fi = NET_TCP_CONNECTION) \<and>
           \<not> raw_flag fi \<and> queue_ok fi \<and>
           wire s sock @ pending fi = W)"

text \<open>
  A transport that accepts at most the bytes it is offered (\<open>n\<close> of them, \<open>n > 0\<close>) and
  fails only with retryable errors.
\<close>

definition transport_ok :: "env \<Rightarrow> bool" where
  "transport_ok E =
     (\<forall>t n. 0 < n \<longrightarrow> fst (sys_send E t n) \<le> n \<and>
            (fst (sys_send E t n) < 0 \<longrightarrow> \<not> TERMINATING_SOCKET_ERROR (snd (sys_send E t n))))"

lemma length_frame: "length (frame m) = 4 + length (payload m)"
  by (simp add: frame_def)

lemma send_image_framed: "\<not> raw_flag fi \<Longrightarrow> send_image fi m = frame m"
  by (simp add: send_image_def frame_def)

lemma fd_events_update [simp]:
  "fd (xs[j := (xs ! j)\<lparr>events := e\<rparr>] ! k) = fd (xs ! k)"
  by (cases "j < length xs") (auto simp: nth_list_update list_update_beyond)

lemma POLLOUT_frame [simp]:
  "calls (set_POLLOUT j s) = calls s" "calls (clear_POLLOUT j s) = calls s"
  "heap (set_POLLOUT j s) = heap s" "heap (clear_POLLOUT j s) = heap s"
  "wire (set_POLLOUT j s) = wire s" "wire (clear_POLLOUT j s) = wire s"
  "freed (set_POLLOUT j s) = freed s" "freed (clear_POLLOUT j s) = freed s"
  "clock (set_POLLOUT j s) = clock s" "clock (clear_POLLOUT j s) = clock s"
  "o2n_fds_info (set_POLLOUT j s) = o2n_fds_info s"
  "o2n_fds_info (clear_POLLOUT j s) = o2n_fds_info s"
  "length (o2n_fds (set_POLLOUT j s)) = length (o2n_fds s)"
  "length (o2n_fds (clear_POLLOUT j s)) = length (o2n_fds s)"
  "fd (o2n_fds (set_POLLOUT j s) ! k) = fd (o2n_fds s ! k)"
  "fd (o2n_fds (clear_POLLOUT j s) ! k) = fd (o2n_fds s ! k)"
  by (simp_all add: set_POLLOUT_def clear_POLLOUT_def)

lemma established_POLLOUT [simp]:
  "established this k sock W (set_POLLOUT j s) = established this k sock W s"
  "established this k sock W (clear_POLLOUT j s) = established this k sock W s"
  by (simp_all add: established_def set_POLLOUT_def clear_POLLOUT_def)

lemma established_clock [simp]:
  "established this k sock W (s\<lparr>clock := c\<rparr>) = established this k sock W s"
  by (simp add: established_def)

lemma send_iter_established:
  assumes est: "established this k sock W s" and tr: "transport_ok E"
  shows "case send_iter E block this k s of
           Return r \<Rightarrow>
             (\<exists>rc s'. r = Inr (rc, s') \<and> established this k sock W s' \<and> rc \<noteq> O2_FAIL \<and>
                (block \<longrightarrow> rc = O2_SUCCESS) \<and>
                (rc = O2_SUCCESS \<longrightarrow> (\<exists>fi'. heap s' this = Some fi' \<and> out_message fi' = [])) \<and>
                calls s' = calls s)
         | Again s' \<Rightarrow>
             established this k sock W s' \<and> calls s' = calls s \<and>
             (\<not> block \<longrightarrow>
                (\<exists>fi fi'. heap s this = Some fi \<and> heap s' this = Some fi' \<and>
                   length (out_message fi') < length (out_message fi)))"
proof -
  from est obtain fi where fi: "heap s this = Some fi" "fds_index fi = int k"
      "k < length (o2n_fds s)" "k < length (o2n_fds_info s)" "o2n_fds_info s ! k = this"
      "fd (o2n_fds s ! k) = sock"
      "net_tag fi = NET_TCP_CLIENT \<or> net_tag fi = NET_TCP_CONNECTION"
      "\<not> raw_flag fi" "queue_ok fi" "wire s sock @ pending fi = W"
    unfolding established_def by blast
  show ?thesis
  proof (cases "out_message fi")
    case Nil
    with fi(1) est show ?thesis by (simp add: send_iter_def)
  next
    case (Cons m ms)
    from fi(9) Cons have q: "msg_ok m" "list_all msg_ok ms" "0 \<le> out_msg_sent fi"
        "out_msg_sent fi < int (length (frame m))"
      by (simp_all add: queue_ok_def)
    define n where "n = send_size fi m"
    define err where "err = fst (sys_send E (clock s) n)"
    define eno where "eno = snd (sys_send E (clock s) n)"
    define buf where "buf = take (nat n) (drop (nat (out_msg_sent fi)) (send_image fi m))"
    define s2 where "s2 = s\<lparr>clock := Suc (clock s),
                   wire := (wire s)(sock := wire s sock @ take (nat err) buf)\<rparr>"
    have iter: "send_iter E block this k s =
       (if err < 0
        then (if \<not> block \<and> \<not> TERMINATING_SOCKET_ERROR eno
              then Return (Inr (O2_BLOCKED, set_POLLOUT k (s\<lparr>clock := Suc (clock s)\<rparr>)))
              else if TERMINATING_SOCKET_ERROR eno
              then Return (case close_socket this (s\<lparr>clock := Suc (clock s)\<rparr>) of
                             Inl e \<Rightarrow> Inl e | Inr s3 \<Rightarrow> Inr (O2_FAIL, s3))
              else Again (s\<lparr>clock := Suc (clock s)\<rparr>))
        else if err \<ge> n
        then (if err \<noteq> n then Return (Inl AssertionFailed)
              else Again (s2\<lparr>heap := (heap s2)
                     (this \<mapsto> fi\<lparr>out_msg_sent := 0, out_message := ms\<rparr>),
                     freed := freed s2 @ [m]\<rparr>))
        else if \<not> block
        then Return (Inr (O2_BLOCKED, set_POLLOUT k
               (s2\<lparr>heap := (heap s2)(this \<mapsto> fi\<lparr>out_msg_sent := out_msg_sent fi + err\<rparr>)\<rparr>)))
        else Again (s2\<lparr>heap := (heap s2)(this \<mapsto> fi\<lparr>out_msg_sent := out_msg_sent fi + err\<rparr>)\<rparr>))"
      unfolding n_def err_def eno_def buf_def s2_def
      using fi(1,6) Cons by (simp add: send_iter_def Let_def)
    have len: "int (length (frame m)) = msg_length m + 4"
      using q(1) by (simp add: length_frame msg_ok_def)
    have n: "n = int (length (frame m)) - out_msg_sent fi" "0 < n"
      using fi(8) q(4) len by (simp_all add: n_def send_size_def)
    have buf: "buf = drop (nat (out_msg_sent fi)) (frame m)"
      using n q(3) fi(8) by (simp add: buf_def send_image_framed)
    have le: "err \<le> n" and nf: "err < 0 \<longrightarrow> \<not> TERMINATING_SOCKET_ERROR eno"
      using tr n(2) unfolding transport_ok_def err_def eno_def by blast+
    have pend: "pending fi = buf @ concat (map frame ms)"
      using Cons q(3,4) by (simp add: pending_def buf)
    have s2f: "clock s2 = Suc (clock s)" "heap s2 = heap s" "calls s2 = calls s"
        "o2n_fds s2 = o2n_fds s" "o2n_fds_info s2 = o2n_fds_info s"
        "wire s2 sock = wire s sock @ take (nat err) buf"
      by (simp_all add: s2_def)
    consider (neg) "err < 0" | (full) "0 \<le> err" "err = n" | (part) "0 \<le> err" "err < n"
      using le by fastforce
    then show ?thesis
    proof cases
      case neg
      with nf have nt: "\<not> TERMINATING_SOCKET_ERROR eno" by simp
      show ?thesis unfolding iter using neg nt est by (cases block) simp_all
    next
      case full
      let ?fi' = "fi\<lparr>out_msg_sent := 0, out_message := ms\<rparr>"
      let ?s' = "s2\<lparr>heap := (heap s2)(this \<mapsto> ?fi'), freed := freed s2 @ [m]\<rparr>"
      have it: "send_iter E block this k s = Again ?s'"
        using full n(2) by (simp add: iter)
      have qok: "queue_ok ?fi'"
        using q(2) by (cases ms) (simp_all add: queue_ok_def frame_def)
      have "take (nat err) buf = buf" using full n q(3) by (simp add: buf)
      moreover have "pending ?fi' = concat (map frame ms)" by (simp add: pending_def)
      ultimately have w: "wire ?s' sock @ pending ?fi' = W"
        using pend fi(10) by (simp add: s2f)
      have "established this k sock W ?s'"
        unfolding established_def
        using fi(2-8) qok w by (intro exI [of _ ?fi']) (simp add: s2f)
      with it fi(1) Cons show ?thesis by (simp add: s2f)
    next
      case part
      let ?fi' = "fi\<lparr>out_msg_sent := out_msg_sent fi + err\<rparr>"
      let ?s' = "s2\<lparr>heap := (heap s2)(this \<mapsto> ?fi')\<rparr>"
      have qok: "queue_ok ?fi'"
        using q part n Cons by (simp add: queue_ok_def)
      have "pending ?fi' = drop (nat err) buf @ concat (map frame ms)"
        using Cons q(3,4) part n by (simp add: pending_def buf nat_add_distrib add.commute)
      moreover have "wire s sock @ take (nat err) buf @ drop (nat err) buf @ concat (map frame ms) = W"
        using pend fi(10) by (simp add: append_assoc [symmetric] del: append_assoc)
      ultimately have w: "wire ?s' sock @ pending ?fi' = W"
        by (simp add: s2f)
      have e: "established this k sock W ?s'"
        unfolding established_def
        using fi(2-8) qok w by (intro exI [of _ ?fi']) (simp add: s2f)
      show ?thesis unfolding iter using part e by (cases block) (simp_all add: s2f)
    qed
  qed
qed


lemma send_loop_established:
  assumes "send_loop E block this k s = Some y" "established this k sock W s" "transport_ok E"
  shows "\<exists>rc s'. y = Inr (rc, s') \<and> established this k sock W s' \<and> rc \<noteq> O2_FAIL \<and>
           (block \<longrightarrow> rc = O2_SUCCESS) \<and>
           (rc = O2_SUCCESS \<longrightarrow> (\<exists>fi'. heap s' this = Some fi' \<and> out_message fi' = [])) \<and>
           calls s' = calls s"
  using assms(1,2)
proof (induction rule: send_loop_induct)
  case (Return s r)
  with send_iter_established [OF Return.prems assms(3), of block] show ?case by simp
next
  case (Again s s' y)
  from send_iter_established [OF Again.prems assms(3), of block] Again.hyps(1)
  have e: "established this k sock W s'" and c: "calls s' = calls s" by simp_all
  from Again.IH [OF e] c show ?case by auto
qed

lemma send_loop_nonblocking_returns:
  assumes "established this k sock W s" "transport_ok E"
  shows "\<exists>y. send_loop E False this k s = Some y"
proof -
  have "\<And>s. established this k sock W s \<Longrightarrow>
          (\<exists>fi. heap s this = Some fi \<and> length (out_message fi) = q) \<Longrightarrow>
          \<exists>y. send_loop E False this k s = Some y" for q
  proof (induction q rule: less_induct)
    case (less q)
    show ?case
    proof (cases "send_iter E False this k s")
      case (Return r)
      then show ?thesis by (simp add: send_loop.simps [of E False this k s])
    next
      case (Again s')
      with send_iter_established [OF less.prems(1) assms(2), of False]
      have e: "established this k sock W s'"
        and d: "\<exists>fi fi'. heap s this = Some fi \<and> heap s' this = Some fi' \<and>
                  length (out_message fi') < length (out_message fi)"
        by simp_all
      from d less.prems(2) obtain fi' where fi': "heap s' this = Some fi'"
          "length (out_message fi') < q"
        by auto
      from less.IH [OF fi'(2) e] fi'(1) obtain y where "send_loop E False this k s' = Some y"
        by blast
      with Again show ?thesis by (simp add: send_loop.simps [of E False this k s])
    qed
  qed
  moreover from assms(1) obtain fi where "heap s this = Some fi"
    unfolding established_def by blast
  ultimately show ?thesis using assms(1) by blast
qed

lemma send_nonblocking_established:
  assumes "established this k sock W s" "transport_ok E"
  shows "\<exists>rc s'. send E False this s = Some (Inr (rc, s')) \<and> established this k sock W s' \<and>
           rc \<noteq> O2_FAIL \<and>
           (rc = O2_SUCCESS \<longrightarrow> (\<exists>fi'. heap s' this = Some fi' \<and> out_message fi' = [])) \<and>
           calls s' = calls s"
proof -
  from assms(1) obtain fi where fi: "heap s this = Some fi" "fds_index fi = int k"
      "k < length (o2n_fds s)" "net_tag fi = NET_TCP_CLIENT \<or> net_tag fi = NET_TCP_CONNECTION"
    unfolding established_def by blast
  then have eq: "send E False this s = send_loop E False this k s"
    by (auto simp: send_def Let_def bounds_check_def)
  from send_loop_nonblocking_returns [OF assms] obtain y where y: "send_loop E False this k s = Some y"
    by blast
  from send_loop_established [OF y assms] eq y show ?thesis by auto
qed


lemma has_flag_POLLOUT [simp]:
  "\<not> has_flag POLLOUT POLLERR" "\<not> has_flag POLLOUT POLLHUP" "has_flag POLLOUT POLLOUT"
  "\<not> has_flag POLLOUT POLLIN"
  "\<not> has_flag POLLIN POLLERR" "\<not> has_flag POLLIN POLLHUP" "\<not> has_flag POLLIN POLLOUT"
  "has_flag POLLIN POLLIN"
  "\<not> has_flag 0 f"
  by (simp_all add: has_flag_def POLLOUT_def POLLERR_def POLLHUP_def POLLIN_def)

lemma established_poll:
  assumes "established this k sock W s"
  shows "established this k sock W (poll E s)"
proof -
  from assms have k: "k < length (o2n_fds s)" unfolding established_def by blast
  have "fd (o2n_fds (poll E s) ! k) = fd (o2n_fds s ! k)"
    using k by (simp add: poll_def nth_enumerate_eq)
  moreover have "heap (poll E s) = heap s" "o2n_fds_info (poll E s) = o2n_fds_info s"
      "wire (poll E s) = wire s" "length (o2n_fds (poll E s)) = length (o2n_fds s)"
    by (simp_all add: poll_def)
  ultimately show ?thesis using assms unfolding established_def by simp
qed

lemma poll_revents:
  assumes "k < length (o2n_fds s)" "0 \<le> fd (o2n_fds s ! k)"
  shows "revents (o2n_fds (poll E s) ! k) = sys_poll E (clock s) k"
  using assms by (simp add: poll_def nth_enumerate_eq)

lemma poll_frame [simp]:
  "calls (poll E s) = calls s" "heap (poll E s) = heap s" "wire (poll E s) = wire s"
  "freed (poll E s) = freed s" "rx (poll E s) = rx s"
  "o2n_fds_info (poll E s) = o2n_fds_info s"
  by (simp_all add: poll_def)


text \<open>One tick of the reactor for descriptor \<open>i\<close>: \<^verbatim>\<open>poll\<close>, then the loop body.\<close>

definition ready_event :: "env \<Rightarrow> nat \<Rightarrow> net \<Rightarrow> (error + net) option" where
  "ready_event E i s = dispatch E i (poll E s)"





text \<open>
  What a program does with one connection: it enqueues a message, sends one through
  \<^verbatim>\<open>send_tcp\<close> (blocking or not), or the reactor sees the socket writable.
\<close>

datatype send_op = Enqueue o2n_message | SendTcp bool o2n_message | WriteReady



fun run_op :: "env \<Rightarrow> addr \<Rightarrow> nat \<Rightarrow> send_op \<Rightarrow> net \<Rightarrow> (error + net) option" where
  "run_op E this k (Enqueue m) s = enqueue E this m s"
| "run_op E this k (SendTcp b m) s = rbind (send_tcp E this b m s) (\<lambda>(r, s'). Some (Inr s'))"
| "run_op E this k WriteReady s = ready_event E k s"

fun run_ops :: "env \<Rightarrow> addr \<Rightarrow> nat \<Rightarrow> send_op list \<Rightarrow> net \<Rightarrow> (error + net) option" where
  "run_ops E this k [] s = Some (Inr s)"
| "run_ops E this k (x # xs) s = rbind (run_op E this k x s) (run_ops E this k xs)"





text \<open>
  A transport that accepts at most \<open>cap\<close> bytes per \<^verbatim>\<open>send\<close> call.
\<close>

definition capped :: "env \<Rightarrow> int \<Rightarrow> bool" where
  "capped E cap = (1 \<le> cap \<and> (\<forall>t n. 0 < n \<longrightarrow> fst (sys_send E t n) = min cap n))"

lemma capped_transport_ok: "capped E cap \<Longrightarrow> transport_ok E"
  by (auto simp: capped_def transport_ok_def)

lemma POLLOUT_absorb:
  "(e OR POLLOUT) AND POLLOUT = POLLOUT" "(e AND NOT POLLOUT) AND POLLOUT = 0"
  by (simp_all add: and.assoc)

lemma has_flag_set_POLLOUT:
  "k < length (o2n_fds s) \<Longrightarrow> has_flag (events (o2n_fds (set_POLLOUT k s) ! k)) POLLOUT"
  by (simp add: set_POLLOUT_def has_flag_def POLLOUT_absorb) (simp add: POLLOUT_def)

lemma has_flag_clear_POLLOUT:
  "k < length (o2n_fds s) \<Longrightarrow> \<not> has_flag (events (o2n_fds (clear_POLLOUT k s) ! k)) POLLOUT"
  by (simp add: clear_POLLOUT_def has_flag_def POLLOUT_absorb)

lemma send_capped:
  assumes est: "established this k sock W s" and fi: "heap s this = Some fi"
    and q: "out_message fi = [m]" and cap: "capped E cap"
  shows "\<exists>rc s' fi'. send E False this s = Some (Inr (rc, s')) \<and> heap s' this = Some fi' \<and>
           wire s' sock = wire s sock @ take (nat cap) (pending fi) \<and>
           (if out_msg_sent fi + cap < int (length (frame m))
            then rc = O2_BLOCKED \<and> out_message fi' = [m] \<and>
                 out_msg_sent fi' = out_msg_sent fi + cap \<and> freed s' = freed s \<and>
                 has_flag (events (o2n_fds s' ! k)) POLLOUT
            else rc = O2_SUCCESS \<and> out_message fi' = [] \<and> out_msg_sent fi' = 0 \<and>
                 freed s' = freed s @ [m] \<and> o2n_fds s' = o2n_fds s)"
proof -
  from est fi have e: "fds_index fi = int k" "k < length (o2n_fds s)"
      "fd (o2n_fds s ! k) = sock"
      "net_tag fi = NET_TCP_CLIENT \<or> net_tag fi = NET_TCP_CONNECTION"
      "\<not> raw_flag fi" "queue_ok fi"
    unfolding established_def by auto
  from e(6) q have qm: "msg_ok m" "0 \<le> out_msg_sent fi"
      "out_msg_sent fi < int (length (frame m))"
    by (simp_all add: queue_ok_def)
  have eq: "send E False this s = send_loop E False this k s"
    using fi e by (auto simp: send_def Let_def bounds_check_def)
  define n where "n = send_size fi m"
  have len: "int (length (frame m)) = msg_length m + 4"
    using qm(1) by (simp add: length_frame msg_ok_def)
  have n: "n = int (length (frame m)) - out_msg_sent fi" "0 < n"
    using e(5) qm(3) len by (simp_all add: n_def send_size_def)
  have err: "fst (sys_send E (clock s) n) = min cap n" and c1: "1 \<le> cap"
    using cap n(2) by (simp_all add: capped_def)
  have pend: "pending fi = drop (nat (out_msg_sent fi)) (frame m)"
    using q by (simp add: pending_def)
  have buf: "take (nat n) (drop (nat (out_msg_sent fi)) (send_image fi m)) = pending fi"
    using n qm(2) e(5) by (simp add: pend send_image_framed)
  have lp: "int (length (pending fi)) = n"
    using n qm(2,3) by (simp add: pend)
  show ?thesis
  proof (cases "out_msg_sent fi + cap < int (length (frame m))")
    case True
    then have m: "min cap n = cap" "cap < n" using n by simp_all
    have "send_iter E False this k s =
            Return (Inr (O2_BLOCKED, set_POLLOUT k
              (s\<lparr>clock := Suc (clock s),
                 wire := (wire s)(sock := wire s sock @ take (nat cap) (pending fi)),
                 heap := (heap s)(this \<mapsto> fi\<lparr>out_msg_sent := out_msg_sent fi + cap\<rparr>)\<rparr>)))"
      using fi q e(3) c1 m buf
      by (simp add: send_iter_def Let_def n_def [symmetric] err)
    then show ?thesis
      using True q e(2)
      by (simp add: eq send_loop.simps [of E False this k s] has_flag_set_POLLOUT)
  next
    case False
    then have m: "min cap n = n" using n by simp
    define s1 where "s1 = s\<lparr>clock := Suc (clock s),
                 wire := (wire s)(sock := wire s sock @ take (nat n) (pending fi)),
                 heap := (heap s)(this \<mapsto> fi\<lparr>out_msg_sent := 0, out_message := []\<rparr>),
                 freed := freed s @ [m]\<rparr>"
    have it: "send_iter E False this k s = Again s1"
      unfolding s1_def
      using fi q e(3) m buf n(2)
      by (simp add: send_iter_def Let_def n_def [symmetric] err)
    have it2: "send_iter E False this k s1 = Return (Inr (O2_SUCCESS, s1))"
      by (simp add: send_iter_def s1_def)
    have tk: "take (nat n) (pending fi) = take (nat cap) (pending fi)"
      using lp False n by simp
    show ?thesis
      using False tk
      by (simp add: eq send_loop.simps [of E False this k s] it
          send_loop.simps [of E False this k s1] it2) (simp add: s1_def)
  qed
qed


lemma write_ready_capped:
  assumes est: "established this k sock W s" and fi: "heap s this = Some fi"
    and q: "out_message fi = [m]" and cap: "capped E cap"
    and rev: "sys_poll E (clock s) k = POLLOUT" and sock: "0 \<le> sock"
  shows "\<exists>s' fi'. ready_event E k s = Some (Inr s') \<and> established this k sock W s' \<and>
           heap s' this = Some fi' \<and>
           wire s' sock = wire s sock @ take (nat cap) (pending fi) \<and>
           (if out_msg_sent fi + cap < int (length (frame m))
            then out_message fi' = [m] \<and> out_msg_sent fi' = out_msg_sent fi + cap \<and>
                 freed s' = freed s \<and> has_flag (events (o2n_fds s' ! k)) POLLOUT
            else out_message fi' = [] \<and> out_msg_sent fi' = 0 \<and> freed s' = freed s @ [m] \<and>
                 \<not> has_flag (events (o2n_fds s' ! k)) POLLOUT)"
proof -
  let ?sp = "poll E s"
  have estp: "established this k sock W ?sp" by (rule established_poll [OF est])
  from est fi have e: "k < length (o2n_fds s)" "k < length (o2n_fds_info s)"
      "o2n_fds_info s ! k = this" "fd (o2n_fds s ! k) = sock"
      "net_tag fi = NET_TCP_CLIENT \<or> net_tag fi = NET_TCP_CONNECTION"
    unfolding established_def by auto
  from e(5) have nc: "net_tag fi \<noteq> NET_TCP_CONNECTING" by auto
  have revp: "revents (o2n_fds ?sp ! k) = POLLOUT"
    using e(1,4) sock rev by (simp add: poll_revents)
  have fip: "heap ?sp this = Some fi" using fi by simp
  from send_capped [OF estp fip q cap]
  obtain rc s1 fi1 where s1: "send E False this ?sp = Some (Inr (rc, s1))"
      "heap s1 this = Some fi1"
      "wire s1 sock = wire s sock @ take (nat cap) (pending fi)"
      "if out_msg_sent fi + cap < int (length (frame m))
       then rc = O2_BLOCKED \<and> out_message fi1 = [m] \<and>
            out_msg_sent fi1 = out_msg_sent fi + cap \<and> freed s1 = freed s \<and>
            has_flag (events (o2n_fds s1 ! k)) POLLOUT
       else rc = O2_SUCCESS \<and> out_message fi1 = [] \<and> out_msg_sent fi1 = 0 \<and>
            freed s1 = freed s @ [m] \<and> o2n_fds s1 = o2n_fds ?sp"
    by auto
  from send_nonblocking_established [OF estp capped_transport_ok [OF cap]] s1(1)
  have est1: "established this k sock W s1" by auto
  then have k1: "k < length (o2n_fds s1)" unfolding established_def by blast
  have d: "ready_event E k s =
             Some (Inr (if rc = O2_SUCCESS then clear_POLLOUT k s1 else s1))"
    using e(1,2,3) revp fip nc q s1(1) k1
    by (simp add: ready_event_def dispatch_def Let_def)
  show ?thesis
  proof (cases "out_msg_sent fi + cap < int (length (frame m))")
    case True
    with s1 est1 d show ?thesis by simp
  next
    case False
    with s1 est1 d k1 show ?thesis by (simp add: has_flag_clear_POLLOUT)
  qed
qed

lemma write_ready_idle:
  assumes est: "established this k sock W s" and fi: "heap s this = Some fi"
    and q: "out_message fi = []"
    and rev: "sys_poll E (clock s) k = POLLOUT" and sock: "0 \<le> sock"
  shows "\<exists>s'. ready_event E k s = Some (Inr s') \<and> established this k sock W s' \<and>
           heap s' this = Some fi \<and> wire s' sock = wire s sock \<and> freed s' = freed s \<and>
           \<not> has_flag (events (o2n_fds s' ! k)) POLLOUT"
proof -
  let ?sp = "poll E s"
  have estp: "established this k sock W ?sp" by (rule established_poll [OF est])
  from est fi have e: "k < length (o2n_fds s)" "k < length (o2n_fds_info s)"
      "o2n_fds_info s ! k = this" "fd (o2n_fds s ! k) = sock"
      "net_tag fi = NET_TCP_CLIENT \<or> net_tag fi = NET_TCP_CONNECTION"
    unfolding established_def by auto
  from e(5) have nc: "net_tag fi \<noteq> NET_TCP_CONNECTING" by auto
  have revp: "revents (o2n_fds ?sp ! k) = POLLOUT"
    using e(1,4) sock rev by (simp add: poll_revents)
  have kp: "k < length (o2n_fds ?sp)" using e(1) by simp
  have d: "ready_event E k s = Some (Inr (clear_POLLOUT k ?sp))"
    using e(1,2,3) revp fi nc q by (simp add: ready_event_def dispatch_def Let_def)
  show ?thesis
    using estp fi kp by (simp add: d has_flag_clear_POLLOUT)
qed

text \<open>
  The state of a connection whose only queued message is \<open>m\<close>, when the socket has
  accepted \<open>b\<close> bytes of its framing since the wire held \<open>w0\<close> and \<open>f0\<close> was freed.
\<close>

definition head_progress ::
  "addr \<Rightarrow> int \<Rightarrow> o2n_message \<Rightarrow> byte list \<Rightarrow> o2n_message list \<Rightarrow> nat \<Rightarrow> net \<Rightarrow> bool" where
  "head_progress this sock m w0 f0 b s =
     (\<exists>fi. heap s this = Some fi \<and> wire s sock = w0 @ take b (frame m) \<and>
           (if b < length (frame m)
            then out_message fi = [m] \<and> out_msg_sent fi = int b \<and> freed s = f0
            else out_message fi = [] \<and> out_msg_sent fi = 0 \<and> freed s = f0 @ [m]))"

lemma write_ready_progress:
  assumes est: "established this k sock W s" and hp: "head_progress this sock m w0 f0 b s"
    and cap: "capped E cap"
    and rev: "sys_poll E (clock s) k = POLLOUT" and sock: "0 \<le> sock"
  shows "\<exists>s'. ready_event E k s = Some (Inr s') \<and> established this k sock W s' \<and>
           head_progress this sock m w0 f0 (b + nat cap) s' \<and>
           (has_flag (events (o2n_fds s' ! k)) POLLOUT \<longleftrightarrow> b + nat cap < length (frame m))"
proof -
  from cap have c1: "1 \<le> cap" by (simp add: capped_def)
  from hp obtain fi where fi: "heap s this = Some fi" "wire s sock = w0 @ take b (frame m)"
      "if b < length (frame m)
       then out_message fi = [m] \<and> out_msg_sent fi = int b \<and> freed s = f0
       else out_message fi = [] \<and> out_msg_sent fi = 0 \<and> freed s = f0 @ [m]"
    unfolding head_progress_def by blast
  show ?thesis
  proof (cases "b < length (frame m)")
    case True
    with fi(3) have q: "out_message fi = [m]" "out_msg_sent fi = int b" "freed s = f0"
      by simp_all
    have pend: "pending fi = drop b (frame m)" using q by (simp add: pending_def)
    have lt: "out_msg_sent fi + cap < int (length (frame m)) \<longleftrightarrow>
              b + nat cap < length (frame m)"
      using q(2) c1 by auto
    from write_ready_capped [OF est fi(1) q(1) cap rev sock]
    obtain s' fi' where s': "ready_event E k s = Some (Inr s')"
        "established this k sock W s'" "heap s' this = Some fi'"
        "wire s' sock = wire s sock @ take (nat cap) (pending fi)"
        "if out_msg_sent fi + cap < int (length (frame m))
         then out_message fi' = [m] \<and> out_msg_sent fi' = out_msg_sent fi + cap \<and>
              freed s' = freed s \<and> has_flag (events (o2n_fds s' ! k)) POLLOUT
         else out_message fi' = [] \<and> out_msg_sent fi' = 0 \<and> freed s' = freed s @ [m] \<and>
              \<not> has_flag (events (o2n_fds s' ! k)) POLLOUT"
      by blast
    have w: "wire s' sock = w0 @ take (b + nat cap) (frame m)"
      using s'(4) fi(2) by (simp add: pend take_add)
    have "head_progress this sock m w0 f0 (b + nat cap) s'"
      unfolding head_progress_def
      using s'(3,5) w q c1 lt by (intro exI [of _ fi']) (auto split: if_splits)
    moreover have "has_flag (events (o2n_fds s' ! k)) POLLOUT \<longleftrightarrow>
                   b + nat cap < length (frame m)"
      using s'(5) lt by (auto split: if_splits)
    ultimately show ?thesis using s'(1,2) by blast
  next
    case False
    with fi(3) have q: "out_message fi = []" "out_msg_sent fi = 0" "freed s = f0 @ [m]"
      by simp_all
    from write_ready_idle [OF est fi(1) q(1) rev sock]
    obtain s' where s': "ready_event E k s = Some (Inr s')"
        "established this k sock W s'" "heap s' this = Some fi"
        "wire s' sock = wire s sock" "freed s' = freed s"
        "\<not> has_flag (events (o2n_fds s' ! k)) POLLOUT"
      by blast
    have "head_progress this sock m w0 f0 (b + nat cap) s'"
      unfolding head_progress_def
      using s'(3,4,5) fi(2) q False by (intro exI [of _ fi]) simp
    with s'(1,2,6) False show ?thesis by auto
  qed
qed

lemma write_ready_events_progress:
  assumes cap: "capped E cap" and rev: "\<forall>t. sys_poll E t k = POLLOUT" and sock: "0 \<le> sock"
  shows "established this k sock W s \<Longrightarrow> head_progress this sock m w0 f0 b s \<Longrightarrow>
         \<exists>s'. run_ops E this k (replicate j WriteReady) s = Some (Inr s') \<and>
              established this k sock W s' \<and>
              head_progress this sock m w0 f0 (b + j * nat cap) s' \<and>
              (0 < j \<longrightarrow> (has_flag (events (o2n_fds s' ! k)) POLLOUT \<longleftrightarrow>
                            b + j * nat cap < length (frame m)))"
proof (induction j arbitrary: s b)
  case 0
  then show ?case by simp
next
  case (Suc j)
  from rev have r: "sys_poll E (clock s) k = POLLOUT" by simp
  from write_ready_progress [OF Suc.prems(1,2) cap r sock]
  obtain s1 where s1: "ready_event E k s = Some (Inr s1)" "established this k sock W s1"
      "head_progress this sock m w0 f0 (b + nat cap) s1"
      "has_flag (events (o2n_fds s1 ! k)) POLLOUT \<longleftrightarrow> b + nat cap < length (frame m)"
    by blast
  from Suc.IH [OF s1(2,3)]
  obtain s' where s': "run_ops E this k (replicate j WriteReady) s1 = Some (Inr s')"
      "established this k sock W s'"
      "head_progress this sock m w0 f0 (b + nat cap + j * nat cap) s'"
      "0 < j \<longrightarrow> (has_flag (events (o2n_fds s' ! k)) POLLOUT \<longleftrightarrow>
                    b + nat cap + j * nat cap < length (frame m))"
    by blast
  have run: "run_ops E this k (replicate (Suc j) WriteReady) s = Some (Inr s')"
    using s1(1) s'(1) by simp
  show ?case
  proof (cases j)
    case 0
    with s' s1 run show ?thesis by (auto simp: add.assoc)
  next
    case (Suc j')
    with s' run show ?thesis by (auto simp: add.assoc add.commute)
  qed
qed

lemma ceil_count:
  fixes x cap :: int
  assumes "1 \<le> cap"
  shows "int j < (x + cap - 1) div cap \<longleftrightarrow> int j * cap < x"
proof -
  from assms have "cap \<noteq> 0" by simp
  from div_mult_self1 [OF this, of "x + cap - 1" "- int j"]
  have "(x + cap - 1 + (- int j) * cap) div cap = (x + cap - 1) div cap + (- int j)"
    by (simp add: mult.commute)
  then have "int j < (x + cap - 1) div cap \<longleftrightarrow> 0 < (x + cap - 1 - int j * cap) div cap"
    by simp
  also have "\<dots> \<longleftrightarrow> cap \<le> x + cap - 1 - int j * cap"
    using assms by (subst pos_imp_zdiv_pos_iff) simp_all
  also have "\<dots> \<longleftrightarrow> int j * cap < x" by auto
  finally show ?thesis .
qed

text \<open>
  A socket on which reading an empty buffer would block (a non-blocking socket whose
  peer has not closed).
\<close>

definition recv_blocks :: "env \<Rightarrow> bool" where
  "recv_blocks E =
     (\<forall>t. fst (sys_recv_empty E t) < 0 \<and> \<not> TERMINATING_SOCKET_ERROR (snd (sys_recv_empty E t)))"

text \<open>
  The receiver \<open>fi\<close> has consumed the bytes \<open>p\<close> of the framing of \<open>m\<close>: fewer than four
  are the first bytes of \<^verbatim>\<open>in_length\<close>; from four on the length is decoded, the message
  is allocated and holds the payload bytes received so far.
\<close>

definition rstate :: "byte list \<Rightarrow> o2n_message \<Rightarrow> Fds_info \<Rightarrow> bool" where
  "rstate p m fi =
     (\<not> raw_flag fi \<and> (net_tag fi = NET_TCP_CLIENT \<or> net_tag fi = NET_TCP_CONNECTION) \<and>
      (if length p < 4
       then in_length_got fi = int (length p) \<and>
            take (length p) (mem_bytes (in_length fi)) = p \<and> in_message fi = None
       else in_length_got fi = 4 \<and> in_length fi = word_of_int (msg_length m) \<and>
            in_msg_got fi = int (length p) - 4 \<and>
            in_message fi =
              Some \<lparr>msg_length = msg_length m,
                    payload = drop 4 p @ replicate (nat (msg_length m) - (length p - 4)) 0\<rparr>))"

text \<open>
  What a receive step leaves alone: the fields of the connection that do not belong to
  the inbound message, and the state other than this object and the socket's buffer.
\<close>

definition same_conn :: "Fds_info \<Rightarrow> Fds_info \<Rightarrow> bool" where
  "same_conn fi fi' =
     (net_tag fi' = net_tag fi \<and> fds_index fi' = fds_index fi \<and> delete_me fi' = delete_me fi \<and>
      raw_flag fi' = raw_flag fi \<and> out_message fi' = out_message fi \<and>
      out_msg_sent fi' = out_msg_sent fi \<and> port fi' = port fi \<and> owner fi' = owner fi)"

definition recv_effect :: "addr \<Rightarrow> int \<Rightarrow> Fds_info \<Rightarrow> byte list \<Rightarrow> net \<Rightarrow> net \<Rightarrow> bool" where
  "recv_effect this sock fi' rest s s' =
     (heap s' = (heap s)(this \<mapsto> fi') \<and> rx s' = (rx s)(sock := rest) \<and>
      o2n_fds s' = o2n_fds s \<and> o2n_fds_info s' = o2n_fds_info s \<and> calls s' = calls s \<and>
      freed s' = freed s \<and> wire s' = wire s \<and> o2_ensemble_name s' = o2_ensemble_name s \<and>
      nonblock s' = nonblock s)"

lemma sint_length: "0 \<le> L \<Longrightarrow> L < 2 ^ 31 - 4 \<Longrightarrow> sint (word_of_int L :: 32 word) = L"
  by (simp add: int_word_sint)

lemma mem_bytes_of_mem_list:
  assumes "length xs = 4"
  shows "mem_bytes (of_mem xs) = xs"
proof -
  from assms obtain a b c d where "xs = [a, b, c, d]"
    by (cases xs; cases "tl xs"; cases "tl (tl xs)"; cases "tl (tl (tl xs))") auto
  then show ?thesis by (simp only: mem_bytes_of_mem)
qed

lemma overwrite_tail:
  "length c \<le> k \<Longrightarrow>
   overwrite (g @ replicate k z) (length g) c = g @ c @ replicate (k - length c) z"
  by (simp add: overwrite_def)

lemma recvfrom_empty:
  assumes "rx s sock = []" "recv_blocks E \<and> nonblock s sock"
  shows "\<exists>eno. \<not> TERMINATING_SOCKET_ERROR eno \<and>
           recvfrom E sock want s = Some ((- 1, eno, []), s\<lparr>clock := Suc (clock s)\<rparr>)"
  using assms by (simp add: recvfrom_def recv_blocks_def Let_def)

lemma recvfrom_data:
  assumes "rx s sock = c @ rest" "c \<noteq> []" "nat want = length c \<or> (length c \<le> nat want \<and> rest = [])"
  shows "recvfrom E sock want s =
           Some ((int (length c), EAGAIN, c),
                 s\<lparr>clock := Suc (clock s), rx := (rx s)(sock := rest)\<rparr>)"
  using assms by (auto simp: recvfrom_def Let_def)

lemma read_payload_step:
  assumes L: "0 \<le> L" "L < 2 ^ 31 - 4"
    and il: "in_length fi = word_of_int L"
    and im: "in_message fi =
               Some \<lparr>msg_length = L, payload = g @ replicate (nat L - length g) 0\<rparr>"
    and ig: "in_msg_got fi = int (length g)"
    and tot: "length g + length c + length q = nat L"
    and rx: "rx s sock = c @ rest" and more: "q \<noteq> [] \<longrightarrow> rest = []"
    and blk: "q \<noteq> [] \<longrightarrow> recv_blocks E \<and> nonblock s sock"
  shows "\<exists>rc s' fi'. read_payload E this sock fi s = Some (Inr (rc, s')) \<and>
           recv_effect this sock fi' rest s s' \<and> same_conn fi fi' \<and>
           in_length fi' = in_length fi \<and> in_length_got fi' = in_length_got fi \<and>
           in_msg_got fi' = int (length g + length c) \<and>
           in_message fi' = Some \<lparr>msg_length = L, payload = g @ c @ replicate (length q) 0\<rparr> \<and>
           rc = (if q = [] then O2_SUCCESS else O2_FAIL)"
proof -
  have sl: "sint (in_length fi) = L" using L il by (simp add: sint_length)
  have nq: "nat L - length g = length c + length q" using tot by simp
  consider (full) "c = []" "q = []" | (empty) "c = []" "q \<noteq> []" | (data) "c \<noteq> []"
    by blast
  then show ?thesis
  proof cases
    case full
    let ?fi' = "fi\<lparr>in_message := Some \<lparr>msg_length = L, payload = g\<rparr>\<rparr>"
    from full tot L have "\<not> int (length g) < L" by simp
    then have res: "read_payload E this sock fi s =
                      Some (Inr (O2_SUCCESS, s\<lparr>heap := (heap s)(this \<mapsto> ?fi')\<rparr>))"
      using full im ig sl tot by (simp add: read_payload_def)
    have "(rx s)(sock := rest) = rx s" using rx full by auto
    then show ?thesis
      unfolding res using full ig
      by (intro exI [of _ O2_SUCCESS] exI [of _ "s\<lparr>heap := (heap s)(this \<mapsto> ?fi')\<rparr>"]
          exI [of _ ?fi']) (simp add: recv_effect_def same_conn_def)
  next
    case empty
    with more rx have e: "rx s sock = []" "rest = []" by simp_all
    from tot empty L have lt: "int (length g) < L" by (cases q) auto
    from blk empty have blk': "recv_blocks E \<and> nonblock s sock" by simp
    from recvfrom_empty [OF e(1) blk', of "L - int (length g)"]
    obtain eno where eno: "\<not> TERMINATING_SOCKET_ERROR eno"
        "recvfrom E sock (L - int (length g)) s =
           Some ((- 1, eno, []), s\<lparr>clock := Suc (clock s)\<rparr>)"
      by blast
    let ?s' = "s\<lparr>clock := Suc (clock s), heap := (heap s)(this \<mapsto> fi)\<rparr>"
    have res: "read_payload E this sock fi s = Some (Inr (O2_FAIL, ?s'))"
      using im ig sl lt eno by (simp add: read_payload_def error_exit_def)
    have "(rx s)(sock := []) = rx s" using e by auto
    then show ?thesis
      unfolding res using empty ig im e nq
      by (intro exI [of _ O2_FAIL] exI [of _ ?s'] exI [of _ fi])
        (simp add: recv_effect_def same_conn_def)
  next
    case data
    from tot data L have lt: "int (length g) < L" by (cases c) auto
    have want: "nat (L - int (length g)) = length c + length q" using tot L by simp
    have "nat (L - int (length g)) = length c \<or>
          (length c \<le> nat (L - int (length g)) \<and> rest = [])"
      using want more by (cases "q = []") simp_all
    from recvfrom_data [OF rx data this]
    have rf: "recvfrom E sock (L - int (length g)) s =
                Some ((int (length c), EAGAIN, c),
                      s\<lparr>clock := Suc (clock s), rx := (rx s)(sock := rest)\<rparr>)" .
    have ow: "overwrite (g @ replicate (length c + length q) 0) (length g) c =
              g @ c @ replicate (length q) 0"
      by (simp add: overwrite_tail)
    show ?thesis
    proof (cases "q = []")
      case True
      let ?fi' = "fi\<lparr>in_msg_got := int (length g) + int (length c),
                     in_message := Some \<lparr>msg_length = L, payload = g @ c\<rparr>\<rparr>"
      let ?s' = "s\<lparr>clock := Suc (clock s), rx := (rx s)(sock := rest),
                    heap := (heap s)(this \<mapsto> ?fi')\<rparr>"
      have cmp: "\<not> int (length g) + int (length c) < L" using tot L True by simp
      have res: "read_payload E this sock fi s = Some (Inr (O2_SUCCESS, ?s'))"
        using data im ig sl lt rf nq ow cmp True
        by (simp add: read_payload_def Let_def)
      show ?thesis
        unfolding res using True
        by (intro exI [of _ O2_SUCCESS] exI [of _ ?s'] exI [of _ ?fi'])
          (simp add: recv_effect_def same_conn_def)
    next
      case False
      let ?fi' = "fi\<lparr>in_message :=
                       Some \<lparr>msg_length = L, payload = g @ c @ replicate (length q) 0\<rparr>,
                     in_msg_got := int (length g) + int (length c)\<rparr>"
      let ?s' = "s\<lparr>clock := Suc (clock s), rx := (rx s)(sock := rest),
                    heap := (heap s)(this \<mapsto> ?fi')\<rparr>"
      have cmp: "int (length g) + int (length c) < L" using tot L False by (cases q) auto
      have res: "read_payload E this sock fi s = Some (Inr (O2_FAIL, ?s'))"
        using data im ig sl lt rf nq ow cmp False
        by (simp add: read_payload_def Let_def)
      show ?thesis
        unfolding res using False
        by (intro exI [of _ O2_FAIL] exI [of _ ?s'] exI [of _ ?fi'])
          (simp add: recv_effect_def same_conn_def)
    qed
  qed
qed


lemma frame_parts:
  "take 4 (frame m) = mem_bytes (htonl (word_of_int (msg_length m)))"
  "drop 4 (frame m) = payload m"
  by (simp_all add: frame_def)

lemma recv_effect_clock:
  "recv_effect this sock fi' rest (s\<lparr>clock := t, rx := (rx s)(sock := bs)\<rparr>) s' \<Longrightarrow>
   recv_effect this sock fi' rest s s'"
  by (simp add: recv_effect_def)

lemma read_whole_message_step:
  assumes fi: "heap s this = Some fi" and rs: "rstate p m fi" and ok: "msg_ok m"
    and fr: "p @ c @ q = frame m" and proper: "c @ q \<noteq> []"
    and rx: "rx s sock = c @ rest" and more: "q \<noteq> [] \<longrightarrow> rest = []"
    and blk: "q \<noteq> [] \<longrightarrow> recv_blocks E \<and> nonblock s sock"
  shows "\<exists>rc s' fi'. read_whole_message E this sock s = Some (Inr (rc, s')) \<and>
           recv_effect this sock fi' rest s s' \<and> same_conn fi fi' \<and>
           (if q = []
            then rc = O2_SUCCESS \<and> in_message fi' = Some m \<and> in_length_got fi' = 4 \<and>
                 in_msg_got fi' = msg_length m
            else rc = O2_FAIL \<and> rstate (p @ c) m fi')"
proof -
  define L where "L = msg_length m"
  from ok have L: "0 \<le> L" "L < 2 ^ 31 - 4" "length (payload m) = nat L"
    by (simp_all add: msg_ok_def L_def)
  have "length (p @ c @ q) = length (frame m)" by (simp only: fr)
  then have flen: "length p + length c + length q = 4 + nat L"
    using L(3) by (simp add: length_frame)
  from rs have nr: "\<not> raw_flag fi"
    and tag: "net_tag fi = NET_TCP_CLIENT \<or> net_tag fi = NET_TCP_CONNECTION"
    by (simp_all add: rstate_def)
  have mrec: "\<lparr>msg_length = L, payload = payload m\<rparr> = m" by (simp add: L_def)
  show ?thesis
  proof (cases "length p < 4")
    case False
    with rs have st: "in_length_got fi = 4" "in_length fi = word_of_int L"
        "in_msg_got fi = int (length p) - 4"
        "in_message fi =
           Some \<lparr>msg_length = L, payload = drop 4 p @ replicate (nat L - (length p - 4)) 0\<rparr>"
      by (simp_all add: rstate_def L_def)
    have eq: "read_whole_message E this sock s = read_payload E this sock fi s"
      using fi nr st(1) by (simp add: read_whole_message_def)
    have ig: "in_msg_got fi = int (length (drop 4 p))" using st(3) False by simp
    have im: "in_message fi =
                Some \<lparr>msg_length = L,
                      payload = drop 4 p @ replicate (nat L - length (drop 4 p)) 0\<rparr>"
      using st(4) by simp
    have tot: "length (drop 4 p) + length c + length q = nat L" using flen False by simp
    from read_payload_step [OF L(1,2) st(2) im ig tot rx more blk, of this]
    obtain rc s' fi' where r: "read_payload E this sock fi s = Some (Inr (rc, s'))"
        "recv_effect this sock fi' rest s s'" "same_conn fi fi'"
        "in_length fi' = in_length fi" "in_length_got fi' = in_length_got fi"
        "in_msg_got fi' = int (length (drop 4 p) + length c)"
        "in_message fi' =
           Some \<lparr>msg_length = L, payload = drop 4 p @ c @ replicate (length q) 0\<rparr>"
        "rc = (if q = [] then O2_SUCCESS else O2_FAIL)"
      by blast
    have "drop 4 (p @ c @ q) = payload m" by (simp only: fr frame_parts)
    then have pay: "drop 4 p @ c @ q = payload m" using False by simp
    show ?thesis
    proof (cases "q = []")
      case True
      with pay r(7) mrec have "in_message fi' = Some m" by simp
      moreover have "in_msg_got fi' = L" using r(6) tot True L(1) by simp
      ultimately show ?thesis
        using r True st(1) unfolding eq L_def
        by (intro exI [of _ rc] exI [of _ s'] exI [of _ fi']) simp
    next
      case q: False
      have "rstate (p @ c) m fi'"
        using r(3,4,5,6,7) nr tag st(1,2) False tot
        by (simp add: rstate_def same_conn_def L_def)
      then show ?thesis
        using r q unfolding eq
        by (intro exI [of _ rc] exI [of _ s'] exI [of _ fi']) simp
    qed
  next
    case True
    with rs have st: "in_length_got fi = int (length p)"
        "take (length p) (mem_bytes (in_length fi)) = p" "in_message fi = None"
      by (simp_all add: rstate_def)
    show ?thesis
    proof (cases "c = []")
      case c: True
      with proper more rx have e: "q \<noteq> []" "rx s sock = []" "rest = []" by simp_all
      from blk e(1) have blk': "recv_blocks E \<and> nonblock s sock" by simp
      from recvfrom_empty [OF e(2) blk', of "4 - int (length p)"]
      obtain eno where eno: "\<not> TERMINATING_SOCKET_ERROR eno"
          "recvfrom E sock (4 - int (length p)) s =
             Some ((- 1, eno, []), s\<lparr>clock := Suc (clock s)\<rparr>)"
        by blast
      let ?s' = "s\<lparr>clock := Suc (clock s), heap := (heap s)(this \<mapsto> fi)\<rparr>"
      have res: "read_whole_message E this sock s = Some (Inr (O2_FAIL, ?s'))"
        using fi nr st True eno
        by (simp add: read_whole_message_def error_exit_def)
      have "(rx s)(sock := []) = rx s" using e by auto
      then show ?thesis
        unfolding res using c e rs
        by (intro exI [of _ O2_FAIL] exI [of _ ?s'] exI [of _ fi])
          (simp add: recv_effect_def same_conn_def)
    next
      case c: False
      show ?thesis
      proof (cases "length p + length c < 4")
        case short: True
        with flen have q: "q \<noteq> []" by auto
        with more have rest: "rest = []" by simp
        have "nat (4 - int (length p)) = length c \<or>
              (length c \<le> nat (4 - int (length p)) \<and> rest = [])"
          using short rest by auto
        from recvfrom_data [OF rx c this]
        have rf: "recvfrom E sock (4 - int (length p)) s =
                    Some ((int (length c), EAGAIN, c),
                          s\<lparr>clock := Suc (clock s), rx := (rx s)(sock := rest)\<rparr>)" .
        define X where "X = overwrite (mem_bytes (in_length fi)) (length p) c"
        have X: "X = p @ c @ drop (length p + length c) (mem_bytes (in_length fi))"
          using st(2) short by (simp add: X_def overwrite_def)
        then have "length X = 4" using short by simp
        then have mb: "mem_bytes (of_mem X) = X" by (rule mem_bytes_of_mem_list)
        let ?fi' = "fi\<lparr>in_length := of_mem X,
                       in_length_got := int (length p) + int (length c)\<rparr>"
        let ?s' = "s\<lparr>clock := Suc (clock s), rx := (rx s)(sock := rest),
                      heap := (heap s)(this \<mapsto> ?fi')\<rparr>"
        have res: "read_whole_message E this sock s = Some (Inr (O2_FAIL, ?s'))"
          using fi nr st True rf c short
          by (simp add: read_whole_message_def Let_def X_def)
        have "take (length p + length c) X = p @ c" by (simp add: X)
        then have "rstate (p @ c) m ?fi'"
          using nr tag st(3) short by (simp add: rstate_def mb)
        then show ?thesis
          unfolding res using q
          by (intro exI [of _ O2_FAIL] exI [of _ ?s'] exI [of _ ?fi'])
            (simp add: recv_effect_def same_conn_def)
      next
        case long: False
        define h where "h = 4 - length p"
        define ch where "ch = take h c"
        define cp where "cp = drop h c"
        have h: "0 < h" "h \<le> length c" "length p + h = 4" "length ch = h" "ch @ cp = c"
          using True long by (simp_all add: h_def ch_def cp_def)
        have chne: "ch \<noteq> []" using h(1,4) by auto
        have rx': "rx s sock = ch @ (cp @ rest)" using rx h(5) by simp
        have "nat (4 - int (length p)) = length ch \<or>
              (length ch \<le> nat (4 - int (length p)) \<and> cp @ rest = [])"
          using h by auto
        from recvfrom_data [OF rx' chne this]
        have rf: "recvfrom E sock (4 - int (length p)) s =
                    Some ((int h, EAGAIN, ch),
                          s\<lparr>clock := Suc (clock s), rx := (rx s)(sock := cp @ rest)\<rparr>)"
          using h(4) by simp
        define X where "X = overwrite (mem_bytes (in_length fi)) (length p) ch"
        have "X = p @ ch" using st(2) h by (simp add: X_def overwrite_def)
        moreover have "take 4 (p @ c @ q) = p @ ch"
          using True long by (simp add: ch_def h_def)
        ultimately have "X = mem_bytes (htonl (word_of_int L))"
          by (simp only: fr frame_parts L_def)
        then have hx: "htonl (of_mem X) = word_of_int L"
          by (simp only: of_mem_mem_bytes htonl_htonl)
        let ?s1 = "s\<lparr>clock := Suc (clock s), rx := (rx s)(sock := cp @ rest)\<rparr>"
        have "\<exists>fi3. read_whole_message E this sock s = read_payload E this sock fi3 ?s1 \<and>
                same_conn fi fi3 \<and> in_length fi3 = word_of_int L \<and> in_length_got fi3 = 4 \<and>
                in_msg_got fi3 = 0 \<and>
                in_message fi3 = Some \<lparr>msg_length = L, payload = replicate (nat L) 0\<rparr>"
          using fi nr st True rf h(1,3) hx L(1,2)
          apply (simp add: read_whole_message_def Let_def X_def [symmetric] sint_length
              o2n_message_new_def O2N_MESSAGE_ALLOC_def)
          apply (rule exI, rule conjI, rule refl)
          apply (simp add: same_conn_def)
          done
        then obtain fi3 where f3:
            "read_whole_message E this sock s = read_payload E this sock fi3 ?s1"
            "same_conn fi fi3" "in_length fi3 = word_of_int L" "in_length_got fi3 = 4"
            "in_msg_got fi3 = 0"
            "in_message fi3 = Some \<lparr>msg_length = L, payload = replicate (nat L) 0\<rparr>"
          by blast
        have ig: "in_msg_got fi3 = int (length ([] :: byte list))" using f3(5) by simp
        have im: "in_message fi3 =
                    Some \<lparr>msg_length = L,
                          payload = [] @ replicate (nat L - length ([] :: byte list)) 0\<rparr>"
          using f3(6) by simp
        have tot: "length ([] :: byte list) + length cp + length q = nat L"
          using flen h by (simp add: cp_def)
        have rx1: "rx ?s1 sock = cp @ rest" by simp
        have blk1: "q \<noteq> [] \<longrightarrow> recv_blocks E \<and> nonblock ?s1 sock" using blk by simp
        from read_payload_step [OF L(1,2) f3(3) im ig tot rx1 more blk1, of this]
        obtain rc s' fi' where r: "read_payload E this sock fi3 ?s1 = Some (Inr (rc, s'))"
            "recv_effect this sock fi' rest ?s1 s'" "same_conn fi3 fi'"
            "in_length fi' = in_length fi3" "in_length_got fi' = in_length_got fi3"
            "in_msg_got fi' = int (length cp)"
            "in_message fi' = Some \<lparr>msg_length = L, payload = cp @ replicate (length q) 0\<rparr>"
            "rc = (if q = [] then O2_SUCCESS else O2_FAIL)"
          by auto
        have eff: "recv_effect this sock fi' rest s s'" by (rule recv_effect_clock [OF r(2)])
        have sc: "same_conn fi fi'" using f3(2) r(3) by (simp add: same_conn_def)
        have "drop 4 (p @ c @ q) = payload m" by (simp only: fr frame_parts)
        then have pay: "cp @ q = payload m" using True long by (simp add: cp_def h_def)
        have d4: "drop 4 (p @ c) = cp" using True long by (simp add: cp_def h_def)
        show ?thesis
        proof (cases "q = []")
          case q: True
          with pay r(7) mrec have "in_message fi' = Some m" by simp
          moreover have "in_msg_got fi' = L" using r(6) tot q L(1) by simp
          ultimately show ?thesis
            using r(1,5,8) eff sc q f3(4) unfolding f3(1) L_def
            by (intro exI [of _ rc] exI [of _ s'] exI [of _ fi']) simp
        next
          case q: False
          have "int (length cp) = int (length p) + int (length c) - 4"
            using True long by (simp add: cp_def h_def)
          moreover have "length q = nat (msg_length m) - length cp"
            using tot by (simp add: L_def)
          moreover have "length p + length c - 4 = length cp"
            using True long by (simp add: cp_def h_def)
          ultimately have "rstate (p @ c) m fi'"
            using r(4,5,6,7) sc nr tag f3(3,4) long d4
            by (simp add: rstate_def same_conn_def L_def)
          then show ?thesis
            using r(1,8) eff sc q unfolding f3(1)
            by (intro exI [of _ rc] exI [of _ s'] exI [of _ fi']) simp
        qed
      qed
    qed
  qed
qed

text \<open>
  Chunks of bytes arrive one after the other; after each arrival the socket is readable
  and \<^verbatim>\<open>read_whole_message\<close> is called once. The results of the calls are collected;
  the run is \<open>None\<close> when one of the calls does not return.
\<close>

fun read_chunks ::
  "env \<Rightarrow> addr \<Rightarrow> int \<Rightarrow> byte list list \<Rightarrow> net \<Rightarrow> (error + O2err list \<times> net) option" where
  "read_chunks E this sock [] s = Some (Inr ([], s))"
| "read_chunks E this sock (c # cs) s =
     (case read_whole_message E this sock (s\<lparr>rx := (rx s)(sock := rx s sock @ c)\<rparr>) of
        None \<Rightarrow> None
      | Some (Inl e) \<Rightarrow> Some (Inl e)
      | Some (Inr (rc, s1)) \<Rightarrow>
          (case read_chunks E this sock cs s1 of
             None \<Rightarrow> None
           | Some (Inl e) \<Rightarrow> Some (Inl e)
           | Some (Inr (rcs, s2)) \<Rightarrow> Some (Inr (rc # rcs, s2))))"

lemma same_conn_trans: "same_conn a b \<Longrightarrow> same_conn b c \<Longrightarrow> same_conn a c"
  by (simp add: same_conn_def)

lemma read_chunks_prefix:
  assumes ok: "msg_ok m" and blk: "recv_blocks E"
  shows "heap s this = Some fi \<Longrightarrow> rstate p m fi \<Longrightarrow> rx s sock = [] \<Longrightarrow> [] \<notin> set cs \<Longrightarrow>
         p @ concat cs @ q = frame m \<Longrightarrow> concat cs @ q \<noteq> [] \<Longrightarrow> nonblock s sock \<Longrightarrow>
         \<exists>rcs s' fi'. read_chunks E this sock cs s = Some (Inr (rcs, s')) \<and> heap s' this = Some fi' \<and>
           same_conn fi fi' \<and> rx s' sock = [] \<and> calls s' = calls s \<and> freed s' = freed s \<and>
           nonblock s' = nonblock s \<and>
           (if q = []
            then rcs = replicate (length cs - 1) O2_FAIL @ [O2_SUCCESS] \<and>
                 in_message fi' = Some m \<and> in_length_got fi' = 4 \<and>
                 in_msg_got fi' = msg_length m
            else rcs = replicate (length cs) O2_FAIL \<and> rstate (p @ concat cs) m fi')"
proof (induction cs arbitrary: s fi p)
  case Nil
  then show ?case by (auto simp: same_conn_def)
next
  case (Cons c cs)
  let ?s0 = "s\<lparr>rx := (rx s)(sock := rx s sock @ c)\<rparr>"
  from Cons.prems(4) have cne: "c \<noteq> []" and csne: "[] \<notin> set cs" by auto
  have h0: "heap ?s0 this = Some fi" using Cons.prems(1) by simp
  have rx0: "rx ?s0 sock = c @ []" using Cons.prems(3) by simp
  have fr: "p @ c @ (concat cs @ q) = frame m" using Cons.prems(5) by simp
  have pr: "c @ (concat cs @ q) \<noteq> []" using cne by simp
  have blk': "concat cs @ q \<noteq> [] \<longrightarrow> recv_blocks E \<and> nonblock ?s0 sock"
    using blk Cons.prems(7) by simp
  from read_whole_message_step [OF h0 Cons.prems(2) ok fr pr rx0 _ blk']
  obtain rc s1 fi1 where r: "read_whole_message E this sock ?s0 = Some (Inr (rc, s1))"
      "recv_effect this sock fi1 [] ?s0 s1" "same_conn fi fi1"
      "if concat cs @ q = []
       then rc = O2_SUCCESS \<and> in_message fi1 = Some m \<and> in_length_got fi1 = 4 \<and>
            in_msg_got fi1 = msg_length m
       else rc = O2_FAIL \<and> rstate (p @ c) m fi1"
    by auto
  from r(2) have e: "heap s1 this = Some fi1" "rx s1 sock = []" "calls s1 = calls s"
      "freed s1 = freed s" "nonblock s1 = nonblock s"
    by (simp_all add: recv_effect_def)
  from e(5) Cons.prems(7) have nb1: "nonblock s1 sock" by simp
  show ?case
  proof (cases "concat cs @ q = []")
    case True
    with csne have cs: "cs = []" "q = []" by (cases cs; simp)+
    with r e True show ?thesis by simp
  next
    case False
    with r(4) have f: "rc = O2_FAIL" "rstate (p @ c) m fi1" by simp_all
    have fr': "(p @ c) @ concat cs @ q = frame m" using Cons.prems(5) by simp
    from Cons.IH [OF e(1) f(2) e(2) csne fr' False nb1]
    obtain rcs s' fi' where r': "read_chunks E this sock cs s1 = Some (Inr (rcs, s'))"
        "heap s' this = Some fi'" "same_conn fi1 fi'" "rx s' sock = []"
        "calls s' = calls s1" "freed s' = freed s1" "nonblock s' = nonblock s1"
        "if q = []
         then rcs = replicate (length cs - 1) O2_FAIL @ [O2_SUCCESS] \<and>
              in_message fi' = Some m \<and> in_length_got fi' = 4 \<and>
              in_msg_got fi' = msg_length m
         else rcs = replicate (length cs) O2_FAIL \<and> rstate ((p @ c) @ concat cs) m fi'"
      by blast
    have sc: "same_conn fi fi'" by (rule same_conn_trans [OF r(3) r'(3)])
    have run: "read_chunks E this sock (c # cs) s = Some (Inr (rc # rcs, s'))"
      using r(1) r'(1) by simp
    show ?thesis
    proof (cases "q = []")
      case True
      with False have "cs \<noteq> []" by auto
      then have "O2_FAIL # replicate (length cs - 1) O2_FAIL = replicate (length cs) O2_FAIL"
        by (cases cs) simp_all
      with True r' sc e f(1) show ?thesis unfolding run by simp
    next
      case q: False
      with r' sc e f(1) show ?thesis unfolding run by simp
    qed
  qed
qed

text \<open>
  A framed TCP connection \<open>that\<close> with owner \<open>ow\<close>, registered at index \<open>j\<close> with socket
  \<open>sock\<close>, that has no message in assembly.
\<close>

definition receiving :: "addr \<Rightarrow> nat \<Rightarrow> int \<Rightarrow> owner \<Rightarrow> net \<Rightarrow> bool" where
  "receiving that j sock ow s =
     (\<exists>fi. heap s that = Some fi \<and> j < length (o2n_fds s) \<and> j < length (o2n_fds_info s) \<and>
           o2n_fds_info s ! j = that \<and> fd (o2n_fds s ! j) = sock \<and> \<not> raw_flag fi \<and>
           (net_tag fi = NET_TCP_CLIENT \<or> net_tag fi = NET_TCP_CONNECTION) \<and>
           in_length_got fi = 0 \<and> in_message fi = None \<and> owner fi = Some ow)"






section \<open>Example environment and states\<close>

text \<open>
  Concrete inputs on which the theorems below are evaluated: an operating system whose
  first \<^verbatim>\<open>sendto\<close> fails and whose later ones succeed, the state right after
  \<^verbatim>\<open>o2n_initialize\<close> (sockets 3 and 4 for UDP sends and broadcast, no registered
  socket), and a registry holding one TCP client with a partly received message and two
  queued messages.
\<close>

definition example_env :: env where
  "example_env = \<lparr>sys_sendto = (\<lambda>t. (if t = 0 then - 1 else 4, ECONNREFUSED)),
     sys_send = (\<lambda>t n. (n, EAGAIN)),
     sys_socket = (\<lambda>t. 5),
     sys_connect = (\<lambda>t. (0, EAGAIN)),
     sys_select = (\<lambda>t. (1, EAGAIN)),
     sys_so_error = (\<lambda>t. 0),
     sys_recv_empty = (\<lambda>t. (- 1, EAGAIN)),
     sys_recv_wait = (\<lambda>t. Forever),
     accept_inherits = False,
     sys_fionread = (\<lambda>t. 0),
     sys_accept = (\<lambda>t. 6),
     sys_poll = (\<lambda>t i. 0),
     on_accepted = (\<lambda>ow. None),
     on_deliver = (\<lambda>ow m. O2_SUCCESS),
     on_remove = (\<lambda>ow s. [])\<rparr>"

definition net_init :: net where
  "net_init = \<lparr>o2n_fds = [], o2n_fds_info = [], heap = (\<lambda>a. None), next_addr = 0,
     o2n_socket_delete_flag = False, o2_ensemble_name = True,
     o2n_udp_send_sock = 3, o2n_broadcast_sock = 4,
     local_to_addr = \<lparr>sin_addr = 0x7F000001, sin_port = 0\<rparr>,
     o2n_broadcast_to_addr = \<lparr>sin_addr = 0xFFFFFFFF, sin_port = 0\<rparr>,
     clock = 0, wire = (\<lambda>a. []), rx = (\<lambda>a. []), udp_rx = (\<lambda>a. []),
     sendto_calls = [], closed = [], freed = [], diag = [], calls = [],
     nonblock = (\<lambda>a. False)\<rparr>"

definition hello :: o2n_message where
  "hello = \<lparr>msg_length = 4, payload = [1, 2, 3, 4]\<rparr>"

definition example_client :: Fds_info where
  "example_client = \<lparr>net_tag = NET_TCP_CLIENT, fds_index = 0, delete_me = False,
     raw_flag = False, in_length = 0, in_message = Some \<lparr>msg_length = 2, payload = [7, 0]\<rparr>,
     in_length_got = 4, in_msg_got = 1, out_message = [hello, hello], out_msg_sent = 3,
     port = 0, owner = Some 1\<rparr>"

definition net_client :: net where
  "net_client = net_init\<lparr>o2n_fds := [\<lparr>fd = 5, events = POLLIN, revents = 0\<rparr>],
     o2n_fds_info := [0], heap := (\<lambda>a. None)(0 \<mapsto> example_client), next_addr := 1,
     nonblock := (\<lambda>a. False)(5 := True)\<rparr>"

text \<open>
  A registry for the cascade of \<^verbatim>\<open>o2n_free_deleted_sockets\<close>: a listener that is
  closed and marked at index 0, and two accepted connections with open sockets 6 and 7.
  The listener's owner 7 closes every registered connection when it is removed.
\<close>

definition cascade_env :: env where
  "cascade_env = example_env\<lparr>on_remove := (\<lambda>ow s. if ow = 7 then o2n_fds_info s else [])\<rparr>"

definition closed_listener :: Fds_info where
  "closed_listener = \<lparr>net_tag = NET_INFO_CLOSED, fds_index = 0, delete_me = True,
     raw_flag = False, in_length = 0, in_message = None, in_length_got = 0, in_msg_got = 0,
     out_message = [], out_msg_sent = 0, port = 8000, owner = Some 7\<rparr>"

definition accepted_conn :: "int \<Rightarrow> owner option \<Rightarrow> Fds_info" where
  "accepted_conn i ow = \<lparr>net_tag = NET_TCP_CONNECTION, fds_index = i, delete_me = False,
     raw_flag = False, in_length = 0, in_message = None, in_length_got = 0, in_msg_got = 0,
     out_message = [hello], out_msg_sent = 0, port = 0, owner = ow\<rparr>"

definition net_cascade :: net where
  "net_cascade = net_init\<lparr>
     o2n_fds := [\<lparr>fd = - 1, events = POLLIN, revents = 0\<rparr>,
                 \<lparr>fd = 6, events = POLLIN, revents = 0\<rparr>,
                 \<lparr>fd = 7, events = POLLIN OR POLLOUT, revents = 0\<rparr>],
     o2n_fds_info := [0, 1, 2],
     heap := ((\<lambda>a. None)(0 \<mapsto> closed_listener))(1 \<mapsto> accepted_conn 1 (Some 8),
                2 \<mapsto> accepted_conn 2 None),
     next_addr := 3, o2n_socket_delete_flag := True\<rparr>"

text \<open>Two transports: every \<^verbatim>\<open>send\<close> would block; every \<^verbatim>\<open>send\<close> fails with EPIPE.\<close>

definition env_wouldblock :: env where
  "env_wouldblock = example_env\<lparr>sys_send := (\<lambda>t n. (- 1, EAGAIN))\<rparr>"


text \<open>
  A transport that accepts three bytes per \<^verbatim>\<open>send\<close> call, with a socket that is always
  writable, and a client whose queue holds the one message \<open>hello\<close>, nothing sent.
\<close>

definition env_capped :: env where
  "env_capped = example_env\<lparr>sys_send := (\<lambda>t n. (min 3 n, EAGAIN)),
                             sys_poll := (\<lambda>t i. POLLOUT)\<rparr>"

definition queued_client :: Fds_info where
  "queued_client = \<lparr>net_tag = NET_TCP_CLIENT, fds_index = 0, delete_me = False,
     raw_flag = False, in_length = 0, in_message = None,
     in_length_got = 0, in_msg_got = 0, out_message = [hello], out_msg_sent = 0,
     port = 0, owner = Some 1\<rparr>"

definition net_queued :: net where
  "net_queued = net_init\<lparr>o2n_fds := [\<lparr>fd = 5, events = POLLIN OR POLLOUT, revents = 0\<rparr>],
     o2n_fds_info := [0], heap := (\<lambda>a. None)(0 \<mapsto> queued_client), next_addr := 1,
     nonblock := (\<lambda>a. False)(5 := True)\<rparr>"

text \<open>
  A client connection with nothing queued and no message in assembly, registered alone
  at index 0 with socket 5.
\<close>

definition idle_client :: Fds_info where
  "idle_client = \<lparr>net_tag = NET_TCP_CLIENT, fds_index = 0, delete_me = False,
     raw_flag = False, in_length = 0, in_message = None,
     in_length_got = 0, in_msg_got = 0, out_message = [], out_msg_sent = 0,
     port = 0, owner = Some 1\<rparr>"

definition net_idle :: net where
  "net_idle = net_init\<lparr>o2n_fds := [\<lparr>fd = 5, events = POLLIN, revents = 0\<rparr>],
     o2n_fds_info := [0], heap := (\<lambda>a. None)(0 \<mapsto> idle_client), next_addr := 1,
     nonblock := (\<lambda>a. False)(5 := True)\<rparr>"

text \<open>
  An owner 7 whose \<^verbatim>\<open>remove()\<close> closes connection 1, if it is registered, and no other.
\<close>

definition sweep_env :: env where
  "sweep_env = example_env\<lparr>on_remove :=
     (\<lambda>ow s. if ow = 7 then filter (\<lambda>a. a = 1) (o2n_fds_info s) else [])\<rparr>"

text \<open>
  A listening socket 5 with owner 7, registered alone at index 0, and an operating
  system on which the bytes \<open>1, 2, 3, 4\<close> arrive while a blocking \<^verbatim>\<open>recvfrom\<close> waits. In
  \<open>example_env\<close> nothing ever arrives, and \<^verbatim>\<open>accept\<close> returns socket 6 in blocking mode.
\<close>

definition listener :: Fds_info where
  "listener = \<lparr>net_tag = NET_TCP_SERVER, fds_index = 0, delete_me = False,
     raw_flag = False, in_length = 0, in_message = None,
     in_length_got = 0, in_msg_got = 0, out_message = [], out_msg_sent = 0,
     port = 8000, owner = Some 7\<rparr>"

definition net_listener :: net where
  "net_listener = net_init\<lparr>o2n_fds := [\<lparr>fd = 5, events = POLLIN, revents = 0\<rparr>],
     o2n_fds_info := [0], heap := (\<lambda>a. None)(0 \<mapsto> listener), next_addr := 1,
     nonblock := (\<lambda>a. False)(5 := True)\<rparr>"

definition env_arrives :: env where
  "env_arrives = example_env\<lparr>sys_recv_wait := (\<lambda>t. Arrives [1, 2, 3, 4])\<rparr>"

text \<open>
A second message, and an operating system on which every socket is always readable.
\<close>

definition bye :: o2n_message where
  "bye = \<lparr>msg_length = 2, payload = [9, 8]\<rparr>"


text \<open>
  Two more operating systems, on which \<^verbatim>\<open>connect\<close> reports that the connection is in
  progress, and that it is refused; and the address of a server.
\<close>

definition env_inprogress :: env where
  "env_inprogress = example_env\<lparr>sys_connect := (\<lambda>t. (- 1, EINPROGRESS))\<rparr>"

definition env_refused :: env where
  "env_refused = example_env\<lparr>sys_connect := (\<lambda>t. (- 1, ECONNREFUSED))\<rparr>"

definition server_addr :: sockaddr_in where
  "server_addr = \<lparr>sin_addr = 0x7F000001, sin_port = 8000\<rparr>"

section \<open>Facts about the examples\<close>

text \<open>
  \<^verbatim>\<open>create_tcp_client\<close> after a socket was created, written out; what the receive path and
  a reactor tick on an idle client can add to the log of owner calls; and the result of a
  failed \<^verbatim>\<open>connect\<close>: \<^verbatim>\<open>cleanup\<close> pops both vectors and then runs the destructor, whose
  first assertion, that \<^verbatim>\<open>fds_index\<close> is within the bounds of \<^verbatim>\<open>o2n_fds\<close>, fails.
\<close>

lemma create_tcp_client_eq:
  assumes "registry_inv s" "closed_inv s" "alloc_inv s" "sys_socket E (clock s) \<noteq> INVALID_SOCKET"
  shows "\<exists>s2 fi. heap s2 (next_addr s) = Some fi \<and> fds_index fi = int (length (o2n_fds s)) \<and>
           net_tag fi = NET_TCP_CONNECTING \<and> owner fi = None \<and> out_message fi = [] \<and>
           in_length_got fi = 0 \<and> in_message fi = None \<and> \<not> raw_flag fi \<and>
           o2n_fds_info s2 = o2n_fds_info s @ [next_addr s] \<and>
           o2n_fds s2 = o2n_fds s @ [\<lparr>fd = sys_socket E (clock s), events = POLLIN, revents = 0\<rparr>] \<and>
           calls s2 = calls s \<and> closed s2 = closed s \<and> nonblock s2 (sys_socket E (clock s)) \<and>
           (\<forall>a. a \<noteq> next_addr s \<longrightarrow> heap s2 a = heap s a) \<and>
           create_tcp_client E ra s =
             (if fst (sys_connect E (Suc (clock s))) = - 1
              then (if snd (sys_connect E (Suc (clock s))) \<noteq> EINPROGRESS
                    then cleanup E (next_addr s) ''connect error'' (sys_socket E (clock s))
                           (s2\<lparr>clock := Suc (Suc (clock s))\<rparr>)
                    else Inr (Some (next_addr s),
                           set_POLLOUT (length (o2n_fds s)) (s2\<lparr>clock := Suc (Suc (clock s))\<rparr>)))
              else Inr (Some (next_addr s),
                     s2\<lparr>clock := Suc (Suc (clock s)),
                        heap := (heap s2)(next_addr s \<mapsto> fi\<lparr>net_tag := NET_TCP_CLIENT\<rparr>)\<rparr>))"
proof -
  let ?sock = "sys_socket E (clock s)"
  let ?s1 = "s\<lparr>clock := Suc (clock s), nonblock := (nonblock s)(?sock := True)\<rparr>"
  have r1: "registry_inv ?s1" using assms(1) by (simp add: registry_inv_alt)
  have c1: "closed_inv ?s1" using assms(2) by (simp add: closed_inv_def)
  have a1: "alloc_inv ?s1" using assms(3) by (simp add: alloc_inv_def)
  from Fds_info_new_registered [OF r1 c1 a1 assms(4), of NET_TCP_CONNECTING 0]
  obtain s2 where s2: "Fds_info_new ?sock NET_TCP_CONNECTING 0 ?s1 = Inr (next_addr s, s2)"
      "o2n_fds_info s2 = o2n_fds_info s @ [next_addr s]"
      "o2n_fds s2 = o2n_fds s @ [\<lparr>fd = ?sock, events = POLLIN, revents = 0\<rparr>]"
      "\<forall>a. a \<noteq> next_addr s \<longrightarrow> heap s2 a = heap s a"
    by auto
  have len: "length (o2n_fds s) = length (o2n_fds_info s)"
    using assms(1) by (simp add: registry_inv_alt)
  define fi where "fi = \<lparr>net_tag = NET_TCP_CONNECTING, fds_index = int (length (o2n_fds s)),
                delete_me = False, raw_flag = False, in_length = 0,
                in_message = None, in_length_got = 0, in_msg_got = 0,
                out_message = [], out_msg_sent = 0, port = 0, owner = None\<rparr>"
  have h: "heap s2 (next_addr s) = Some fi" "calls s2 = calls s" "clock s2 = Suc (clock s)"
      "closed s2 = closed s" "nonblock s2 ?sock"
    using s2(1) assms(4) by (auto simp: Fds_info_new_def Let_def fi_def)
  have fis: "fds_index fi = int (length (o2n_fds s))" "net_tag fi = NET_TCP_CONNECTING"
      "owner fi = None" "out_message fi = []" "in_length_got fi = 0" "in_message fi = None"
      "\<not> raw_flag fi"
    by (simp_all add: fi_def)
  have bc: "bounds_check (o2n_fds s2) (fds_index fi)" "bounds_check (o2n_fds_info s2) (fds_index fi)"
    using s2(2,3) fis(1) len by (simp_all add: bounds_check_def)
  have at: "o2n_fds_info s2 ! length (o2n_fds s) = next_addr s"
    using s2(2) len by (simp add: nth_append)
  have "create_tcp_client E ra s =
             (if fst (sys_connect E (Suc (clock s))) = - 1
              then (if snd (sys_connect E (Suc (clock s))) \<noteq> EINPROGRESS
                    then cleanup E (next_addr s) ''connect error'' ?sock
                           (s2\<lparr>clock := Suc (Suc (clock s))\<rparr>)
                    else Inr (Some (next_addr s),
                           set_POLLOUT (length (o2n_fds s)) (s2\<lparr>clock := Suc (Suc (clock s))\<rparr>)))
              else Inr (Some (next_addr s),
                     s2\<lparr>clock := Suc (Suc (clock s)),
                        heap := (heap s2)(next_addr s \<mapsto> fi\<lparr>net_tag := NET_TCP_CLIENT\<rparr>)\<rparr>))"
    using assms(4) s2(1) h bc fis(1) at
    by (simp add: create_tcp_client_def o2n_tcp_socket_new_def Let_def)
  with s2 h fis show ?thesis by blast
qed

lemma create_tcp_client_connect_failure:
  assumes "registry_inv s" "closed_inv s" "alloc_inv s" "sys_socket E (clock s) \<noteq> INVALID_SOCKET"
    "fst (sys_connect E (Suc (clock s))) = - 1"
    "snd (sys_connect E (Suc (clock s))) \<noteq> EINPROGRESS"
  shows "create_tcp_client E ra s = Inl AssertionFailed"
proof -
  from create_tcp_client_eq [OF assms(1-4), of ra]
  obtain s2 fi where s2: "heap s2 (next_addr s) = Some fi"
      "fds_index fi = int (length (o2n_fds s))"
      "o2n_fds_info s2 = o2n_fds_info s @ [next_addr s]"
      "o2n_fds s2 = o2n_fds s @ [\<lparr>fd = sys_socket E (clock s), events = POLLIN, revents = 0\<rparr>]"
      "create_tcp_client E ra s =
         cleanup E (next_addr s) ''connect error'' (sys_socket E (clock s))
           (s2\<lparr>clock := Suc (Suc (clock s))\<rparr>)"
    using assms(5,6) by auto
  show ?thesis
    unfolding s2(5)
    using s2(1-4)
    by (simp add: cleanup_def Let_def delete_Fds_info_def Fds_info_dtor_def bounds_check_def)
qed

lemma recvfrom_calls: "recvfrom E sock w s = Some (r, s1) \<Longrightarrow> calls s1 = calls s"
  by (auto simp: recvfrom_def Let_def split: if_splits recv_wait.splits)

lemma error_exit_calls: "error_exit this fi n eno s = Inr (rc, s') \<Longrightarrow> calls s' = calls s"
  by (auto simp: error_exit_def Let_def split: if_splits option.splits)

lemma read_payload_calls:
  "read_payload E this sock fi s = Some (Inr (rc, s')) \<Longrightarrow> calls s' = calls s"
  by (auto simp: read_payload_def Let_def dest!: recvfrom_calls error_exit_calls
      split: if_splits option.splits prod.splits)

lemma read_whole_message_calls:
  "read_whole_message E this sock s = Some (Inr (rc, s')) \<Longrightarrow> calls s' = calls s"
  by (auto simp: read_whole_message_def Let_def
      dest!: recvfrom_calls error_exit_calls read_payload_calls
      split: if_splits option.splits prod.splits)

lemma deliver_common_calls:
  "deliver_common E this s = Inr (rc, t) \<Longrightarrow>
   \<exists>evs. calls t = calls s @ evs \<and> (\<forall>ow. Connected ow \<notin> set evs)"
  by (auto simp: deliver_common_def Let_def close_effect_simps
      dest!: close_socket_InrD split: if_splits option.splits sum.splits)

lemma dispatch_client_calls:
  assumes "dispatch E i s = Some (Inr t)" "i < length (o2n_fds_info s)"
    "heap s (o2n_fds_info s ! i) = Some fi" "net_tag fi = NET_TCP_CLIENT" "out_message fi = []"
  shows "\<exists>evs. calls t = calls s @ evs \<and> (\<forall>ow. Connected ow \<notin> set evs)"
proof -
  let ?p = "o2n_fds s ! i" and ?a = "o2n_fds_info s ! i"
  from assms(1) have len: "i < length (o2n_fds s)"
    by (auto simp: dispatch_def split: if_splits)
  consider (err) "has_flag (revents ?p) POLLERR"
    | (hup) "\<not> has_flag (revents ?p) POLLERR" "has_flag (revents ?p) POLLHUP"
    | (out) "\<not> has_flag (revents ?p) POLLERR" "\<not> has_flag (revents ?p) POLLHUP"
        "has_flag (revents ?p) POLLOUT"
    | (inp) "\<not> has_flag (revents ?p) POLLERR" "\<not> has_flag (revents ?p) POLLHUP"
        "\<not> has_flag (revents ?p) POLLOUT" "has_flag (revents ?p) POLLIN"
    | (none) "\<not> has_flag (revents ?p) POLLERR" "\<not> has_flag (revents ?p) POLLHUP"
        "\<not> has_flag (revents ?p) POLLOUT" "\<not> has_flag (revents ?p) POLLIN"
    by blast
  then show ?thesis
  proof cases
    case err
    with assms(1) len have "t = s" by (simp add: dispatch_def Let_def)
    then show ?thesis by simp
  next
    case hup
    with assms(1,2) len have "close_socket ?a s = Inr t"
      by (simp add: dispatch_def Let_def split: sum.splits)
    from close_socket_InrD [OF this] show ?thesis by (auto simp: close_effect_simps)
  next
    case out
    with assms len have "t = clear_POLLOUT i s" by (simp add: dispatch_def Let_def)
    then show ?thesis by (simp add: clear_POLLOUT_def)
  next
    case inp
    with assms(1,2,3) len obtain r s1 where
      r: "read_event_handler E ?a (fd ?p) s = Some (Inr (r, s1))"
         "if r \<noteq> O2_SUCCESS then close_socket ?a s1 = Inr t else t = s1"
      by (auto simp: dispatch_def Let_def split: if_splits option.splits sum.splits)
    from r(1) assms(3,4) have "\<exists>evs. calls s1 = calls s @ evs \<and> (\<forall>ow. Connected ow \<notin> set evs)"
      by (auto simp: read_event_handler_def
          dest!: read_whole_message_calls deliver_common_calls
          split: if_splits option.splits sum.splits prod.splits)
    moreover have "calls t = calls s1"
    proof (cases "r = O2_SUCCESS")
      case True
      with r(2) show ?thesis by simp
    next
      case False
      with r(2) have "close_socket ?a s1 = Inr t" by simp
      from close_socket_InrD [OF this] show ?thesis by (auto simp: close_effect_simps)
    qed
    ultimately show ?thesis by simp
  next
    case none
    with assms(1,2) len have "t = s" by (simp add: dispatch_def Let_def)
    then show ?thesis by simp
  qed
qed

lemma net_init_inv: "registry_inv net_init" "closed_inv net_init" "alloc_inv net_init"
  by (simp_all add: registry_inv_alt closed_inv_def alloc_inv_def net_init_def)

lemma POLLOUT_cleared: "(POLLIN OR POLLOUT) AND NOT POLLOUT = POLLIN"
  by (simp add: POLLIN_def POLLOUT_def)

lemma refused_connect_fails_assertion:
  "create_tcp_client env_refused server_addr net_init = Inl AssertionFailed"
  by (rule create_tcp_client_connect_failure [OF net_init_inv])
    (simp_all add: env_refused_def example_env_def net_init_def INVALID_SOCKET_def)

lemma frame_bye: "frame bye = [0, 0, 0, 2, 9, 8]"
  by (simp only: frame_def mem_bytes_htonl) (simp add: bye_def mem_bytes_def)




lemma receiving_rx [simp]: "receiving that j sock ow (r\<lparr>rx := b\<rparr>) = receiving that j sock ow r"
  by (simp add: receiving_def)


lemma hooks_ok_sweep: "hooks_ok sweep_env"
  by (auto simp: hooks_ok_def sweep_env_def)

lemma delete_listener_eval:
  "(case delete_Fds_info sweep_env 0 net_cascade of
      Inl e \<Rightarrow> None
    | Inr s \<Rightarrow> Some (o2n_fds_info s, o2n_fds s, calls s, map (heap s) [0, 1, 2])) =
   Some ([2, 1],
         [\<lparr>fd = 7, events = POLLIN OR POLLOUT, revents = 0\<rparr>,
          \<lparr>fd = - 1, events = POLLIN, revents = 0\<rparr>],
         [Removed 7],
         [None,
          Some ((accepted_conn 1 (Some 8))\<lparr>out_message := [], net_tag := NET_INFO_CLOSED,
                  delete_me := True\<rparr>),
          Some (accepted_conn 0 None)])"
  by (simp add: sweep_env_def example_env_def net_cascade_def net_init_def closed_listener_def
      accepted_conn_def delete_Fds_info_def Fds_info_dtor_def owner_remove_def
      close_socket_def bounds_check_def Let_def INVALID_SOCKET_def)

lemma recv_blocks_example: "recv_blocks example_env"
  by (simp add: recv_blocks_def example_env_def TERMINATING_SOCKET_ERROR_def)

lemma net_idle_simps:
  "heap net_idle 0 = Some idle_client"
  "\<not> raw_flag idle_client"
  "net_tag idle_client = NET_TCP_CLIENT"
  "in_length_got idle_client = 0"
  "in_message idle_client = None"
  "owner idle_client = Some 1"
  "rx net_idle 5 = []"
  "calls net_idle = []"
  by (simp_all add: net_idle_def net_init_def idle_client_def)

lemma frame_hello: "frame hello = [0, 0, 0, 4, 1, 2, 3, 4]"
  by (simp only: frame_def mem_bytes_htonl) (simp add: hello_def mem_bytes_def)

lemma msg_ok_hello: "msg_ok hello"
  by (simp add: msg_ok_def hello_def)

lemma capped_env_capped: "capped env_capped 3"
  by (simp add: capped_def env_capped_def example_env_def)

lemma established_net_queued: "established 0 0 5 (frame hello) net_queued"
  by (simp add: established_def net_queued_def net_init_def queued_client_def queue_ok_def
      pending_def msg_ok_def length_frame hello_def)

lemma net_client_simps:
  "heap net_client 0 = Some example_client"
  "out_message example_client = [hello, hello]"
  "net_tag example_client = NET_TCP_CLIENT"
  "fds_index example_client = 0"
  "bounds_check (o2n_fds net_client) 0"
  "fd (o2n_fds net_client ! 0) = 5"
  "in_message example_client = Some \<lparr>msg_length = 2, payload = [7, 0]\<rparr>"
  by (simp_all add: net_client_def net_init_def example_client_def bounds_check_def)

lemma hooks_ok_cascade: "hooks_ok cascade_env"
  by (auto simp: hooks_ok_def cascade_env_def)

lemma registry_inv_cascade: "registry_inv net_cascade"
  by (simp add: registry_inv_code net_cascade_def net_init_def
      closed_listener_def accepted_conn_def)

lemma closed_inv_cascade: "closed_inv net_cascade"
  by (simp add: closed_inv_code net_cascade_def net_init_def
      closed_listener_def accepted_conn_def INVALID_SOCKET_def)

lemma flag_inv_cascade: "flag_inv net_cascade"
  by (simp add: flag_inv_code net_cascade_def net_init_def)

lemma alloc_inv_cascade: "alloc_inv net_cascade"
  by (simp add: alloc_inv_def net_cascade_def net_init_def)

lemma net_cascade_simps:
  "o2n_fds_info net_cascade = [0, 1, 2]"
  "length (o2n_fds net_cascade) = 3"
  "heap net_cascade 0 = Some closed_listener"
  "net_tag closed_listener = NET_INFO_CLOSED"
  by (simp_all add: net_cascade_def net_init_def closed_listener_def)

lemma sweep_cascade_eval:
  "(case o2n_free_deleted_sockets sweep_env net_cascade of
      Inl e \<Rightarrow> None
    | Inr s \<Rightarrow> Some (o2n_fds_info s, o2n_fds s, calls s, map (heap s) [0, 1, 2])) =
   Some ([2], [\<lparr>fd = 7, events = POLLIN OR POLLOUT, revents = 0\<rparr>],
         [Removed 7, Removed 8], [None, None, Some (accepted_conn 0 None)])"
  by (simp add: sweep_env_def example_env_def net_cascade_def net_init_def closed_listener_def
      accepted_conn_def delete_Fds_info_def Fds_info_dtor_def owner_remove_def
      close_socket_def bounds_check_def Let_def INVALID_SOCKET_def)

section \<open>The UDP senders and the ownership of the message\<close>

text \<open>
  C9 (as amended). \<^verbatim>\<open>o2n_send_udp\<close> and \<^verbatim>\<open>o2n_send_udp_local\<close> free the message they
  are given whether \<^verbatim>\<open>sendto\<close> succeeds or fails. \<^verbatim>\<open>o2n_send_broadcast\<close> frees
  nothing: the message stays with its caller. Each of the three calls \<^verbatim>\<open>sendto\<close> exactly
  once, with the payload of the message, so nothing is retried. A failure of \<^verbatim>\<open>sendto\<close>
  is written to the diagnostic channel by all three; \<^verbatim>\<open>o2n_send_udp\<close> also returns
  \<^verbatim>\<open>O2_FAIL\<close> and \<^verbatim>\<open>o2n_send_broadcast\<close> returns the negative result of \<^verbatim>\<open>sendto\<close>, while
  \<^verbatim>\<open>o2n_send_udp_local\<close> returns nothing. No owner is called and no socket is closed.
\<close>

theorem udp_senders_ownership:
  "freed (snd (o2n_send_udp E ua msg s)) = freed s @ [msg] \<and>
   freed (o2n_send_udp_local E p msg s) = freed s @ [msg] \<and>
   freed (snd (o2n_send_broadcast E p msg s)) = freed s \<and>
   clock (snd (o2n_send_udp E ua msg s)) = Suc (clock s) \<and>
   clock (o2n_send_udp_local E p msg s) = Suc (clock s) \<and>
   clock (snd (o2n_send_broadcast E p msg s)) = Suc (clock s) \<and>
   sendto_calls (snd (o2n_send_udp E ua msg s)) =
     sendto_calls s @ [(o2n_udp_send_sock s, ua, take (nat (msg_length msg)) (payload msg))] \<and>
   sendto_calls (o2n_send_udp_local E p msg s) =
     sendto_calls s @ [(o2n_udp_send_sock s, (local_to_addr s)\<lparr>sin_port := word_of_int p\<rparr>,
                        take (nat (msg_length msg)) (payload msg))] \<and>
   sendto_calls (snd (o2n_send_broadcast E p msg s)) =
     sendto_calls s @ [(o2n_broadcast_sock s,
                        (o2n_broadcast_to_addr s)\<lparr>sin_port := word_of_int p\<rparr>,
                        take (nat (msg_length msg)) (payload msg))] \<and>
   fst (o2n_send_udp E ua msg s) = (if fst (sys_sendto E (clock s)) < 0 then O2_FAIL else O2_SUCCESS) \<and>
   fst (o2n_send_broadcast E p msg s) = fst (sys_sendto E (clock s)) \<and>
   diag (snd (o2n_send_udp E ua msg s)) = diag s @
     (if fst (sys_sendto E (clock s)) < 0
      then [''error sending udp to port'', ''o2n_send_udp_via_socket''] else []) \<and>
   diag (o2n_send_udp_local E p msg s) = diag s @
     (if fst (sys_sendto E (clock s)) < 0
      then [''Error attempting to send udp message locally''] else []) \<and>
   diag (snd (o2n_send_broadcast E p msg s)) = diag s @
     (if fst (sys_sendto E (clock s)) < 0
      then [''Error attempting to broadcast discovery message''] else []) \<and>
   calls (snd (o2n_send_udp E ua msg s)) = calls s \<and>
   calls (o2n_send_udp_local E p msg s) = calls s \<and>
   calls (snd (o2n_send_broadcast E p msg s)) = calls s \<and>
   closed (snd (o2n_send_udp E ua msg s)) = closed s \<and>
   closed (o2n_send_udp_local E p msg s) = closed s \<and>
   closed (snd (o2n_send_broadcast E p msg s)) = closed s"
  by (simp add: o2n_send_udp_def o2n_send_udp_via_socket_def o2n_send_udp_local_def
      o2n_send_broadcast_def Let_def)

text \<open>
  C9 (as stated) fails for the broadcast sender: neither after a failed nor after a
  successful \<^verbatim>\<open>sendto\<close> has the message been freed.
\<close>

theorem broadcast_keeps_message_counterexample:
  "fst (o2n_send_broadcast example_env 8000 hello net_init) = - 1 \<and>
   freed (snd (o2n_send_broadcast example_env 8000 hello net_init)) = [] \<and>
   fst (o2n_send_broadcast example_env 8000 hello
          (snd (o2n_send_broadcast example_env 8000 hello net_init))) = 4 \<and>
   freed (snd (o2n_send_broadcast example_env 8000 hello
          (snd (o2n_send_broadcast example_env 8000 hello net_init)))) = []"
  by (simp add: o2n_send_broadcast_def example_env_def net_init_def hello_def Let_def)

section \<open>The registry stays index-synchronized\<close>

text \<open>
  C2. From a state that satisfies the registry invariant, every registration
  (\<^verbatim>\<open>new Fds_info\<close> with a valid socket) and every removal (\<^verbatim>\<open>delete\<close> of a registered
  connection that is CLOSED, as the destructor asserts) returns a state that satisfies
  it again: the two vectors have equal length and, for every valid index \<open>i\<close>,
  connection \<open>i\<close> is stamped with \<open>i\<close> and its socket is the socket of descriptor \<open>i\<close>.
  Registration appends the new descriptor and the new connection and changes no other
  object. Deleting the connection at index \<open>i\<close> shrinks both vectors by exactly one and
  deallocates the object. Both vectors are compacted the same way: the last element is
  moved to index \<open>i\<close>, the others keep their places, so descriptor \<open>j\<close> afterwards is the
  descriptor that belonged to connection \<open>j\<close> before, and the moved connection is
  re-stamped with \<open>i\<close> and otherwise unchanged. The only other change comes from the
  \<^verbatim>\<open>remove()\<close> hook of the deleted connection's owner: \<open>hs\<close> are the connections it
  closes, and closing sets the fd of their descriptor to \<^verbatim>\<open>INVALID_SOCKET\<close>.
\<close>

theorem registry_stays_index_synchronized:
  assumes "registry_inv s" "closed_inv s" "alloc_inv s" "hooks_ok E"
  shows "(sock \<noteq> INVALID_SOCKET \<longrightarrow>
           (\<exists>a s'. Fds_info_new sock tag p s = Inr (a, s') \<and>
              registry_inv s' \<and> closed_inv s' \<and> alloc_inv s' \<and>
              o2n_fds_info s' = o2n_fds_info s @ [a] \<and>
              o2n_fds s' = o2n_fds s @ [\<lparr>fd = sock, events = POLLIN, revents = 0\<rparr>] \<and>
              (\<forall>b. b \<noteq> a \<longrightarrow> heap s' b = heap s b))) \<and>
         (\<forall>i < length (o2n_fds_info s). \<forall>fi.
            heap s (o2n_fds_info s ! i) = Some fi \<and> net_tag fi = NET_INFO_CLOSED \<longrightarrow>
            (\<exists>s' hs. delete_Fds_info E (o2n_fds_info s ! i) s = Inr s' \<and>
               registry_inv s' \<and> closed_inv s' \<and> alloc_inv s' \<and>
               length (o2n_fds s') = length (o2n_fds s) - 1 \<and>
               length (o2n_fds_info s') = length (o2n_fds_info s) - 1 \<and>
               (i < length (o2n_fds_info s) - 1 \<longrightarrow>
                  o2n_fds_info s' ! i = last (o2n_fds_info s) \<and>
                  (\<exists>r. heap s' (last (o2n_fds_info s)) = Some r \<and> fds_index r = int i) \<and>
                  get_socket (last (o2n_fds_info s)) s' = Inr (fd (o2n_fds s' ! i))) \<and>
               o2n_fds_info s' = butlast ((o2n_fds_info s)[i := last (o2n_fds_info s)]) \<and>
               heap s' (o2n_fds_info s ! i) = None \<and>
               (case owner fi of None \<Rightarrow> hs = [] | Some ow \<Rightarrow> \<exists>st. hs = on_remove E ow st) \<and>
               (\<forall>j < length (o2n_fds_info s').
                  (o2n_fds_info s' ! j \<notin> set hs \<longrightarrow>
                     o2n_fds s' ! j = butlast ((o2n_fds s)[i := last (o2n_fds s)]) ! j \<and>
                     (\<exists>fb. heap s (o2n_fds_info s' ! j) = Some fb \<and>
                           heap s' (o2n_fds_info s' ! j) = Some (fb\<lparr>fds_index := int j\<rparr>))) \<and>
                  (o2n_fds s' ! j = butlast ((o2n_fds s)[i := last (o2n_fds s)]) ! j \<or>
                   o2n_fds s' ! j =
                     (butlast ((o2n_fds s)[i := last (o2n_fds s)]) ! j)
                       \<lparr>fd := INVALID_SOCKET\<rparr>))))"
proof (intro conjI impI allI)
  assume "sock \<noteq> INVALID_SOCKET"
  from Fds_info_new_registered [OF assms(1,2,3) this, of tag p]
  show "\<exists>a s'. Fds_info_new sock tag p s = Inr (a, s') \<and>
              registry_inv s' \<and> closed_inv s' \<and> alloc_inv s' \<and>
              o2n_fds_info s' = o2n_fds_info s @ [a] \<and>
              o2n_fds s' = o2n_fds s @ [\<lparr>fd = sock, events = POLLIN, revents = 0\<rparr>] \<and>
              (\<forall>b. b \<noteq> a \<longrightarrow> heap s' b = heap s b)"
    by blast
next
  fix i fi
  assume i: "i < length (o2n_fds_info s)"
    and h: "heap s (o2n_fds_info s ! i) = Some fi \<and> net_tag fi = NET_INFO_CLOSED"
  let ?D = "butlast ((o2n_fds s)[i := last (o2n_fds s)])"
  from delete_registered [OF assms(1,2,4) i] h
  obtain s' where s': "delete_Fds_info E (o2n_fds_info s ! i) s = Inr s'"
      "registry_inv s'" "closed_inv s'"
      "o2n_fds_info s' = butlast ((o2n_fds_info s)[i := last (o2n_fds_info s)])"
      "next_addr s' = next_addr s" "marks_kept s s'"
    by blast
  from delete_effect [OF assms(1,2,4) i] h s'(1)
  obtain hs where e: "case owner fi of None \<Rightarrow> hs = [] | Some ow \<Rightarrow> \<exists>st. hs = on_remove E ow st"
      "heap s' (o2n_fds_info s ! i) = None"
      "\<forall>j < length (o2n_fds_info s'). \<exists>fb fb'.
              heap s (o2n_fds_info s' ! j) = Some fb \<and>
              heap s' (o2n_fds_info s' ! j) = Some fb' \<and>
              fds_index fb' = int j \<and> owner fb' = owner fb \<and>
              (delete_me fb \<longrightarrow> delete_me fb') \<and>
              (o2n_fds_info s' ! j \<in> set hs \<longrightarrow> delete_me fb') \<and>
              (o2n_fds_info s' ! j \<notin> set hs \<longrightarrow>
                 fb' = fb\<lparr>fds_index := int j\<rparr> \<and> o2n_fds s' ! j = ?D ! j) \<and>
              (o2n_fds s' ! j = ?D ! j \<or>
               o2n_fds s' ! j = (?D ! j)\<lparr>fd := INVALID_SOCKET\<rparr>)"
    by auto
  have al: "alloc_inv s'" by (rule alloc_inv_kept [OF assms(3) s'(6,5)])
  have l1: "length (o2n_fds_info s') = length (o2n_fds_info s) - 1" using s'(4) by simp
  have l2: "length (o2n_fds s') = length (o2n_fds s) - 1"
    using l1 s'(2) assms(1) by (simp add: registry_inv_alt)
  have mv: "o2n_fds_info s' ! i = last (o2n_fds_info s) \<and>
            (\<exists>r. heap s' (last (o2n_fds_info s)) = Some r \<and> fds_index r = int i) \<and>
            get_socket (last (o2n_fds_info s)) s' = Inr (fd (o2n_fds s' ! i))"
    if lt: "i < length (o2n_fds_info s) - 1"
  proof -
    have at: "o2n_fds_info s' ! i = last (o2n_fds_info s)"
      using i lt by (simp add: s'(4) nth_swap_last)
    from lt l1 have i': "i < length (o2n_fds_info s')" by simp
    from registry_inv_nth [OF s'(2) i'] at
    have st: "\<exists>r. heap s' (last (o2n_fds_info s)) = Some r \<and> fds_index r = int i" by simp
    from s'(2) i' at have "get_socket (last (o2n_fds_info s)) s' = Inr (fd (o2n_fds s' ! i))"
      unfolding registry_inv_def by metis
    with at st show ?thesis by simp
  qed
  have each: "(o2n_fds_info s' ! j \<notin> set hs \<longrightarrow>
                     o2n_fds s' ! j = ?D ! j \<and>
                     (\<exists>fb. heap s (o2n_fds_info s' ! j) = Some fb \<and>
                           heap s' (o2n_fds_info s' ! j) = Some (fb\<lparr>fds_index := int j\<rparr>))) \<and>
                  (o2n_fds s' ! j = ?D ! j \<or>
                   o2n_fds s' ! j = (?D ! j)\<lparr>fd := INVALID_SOCKET\<rparr>)"
    if "j < length (o2n_fds_info s')" for j
    using e(3) that by fastforce
  from s'(1,2,3,4) al l1 l2 mv e(1,2) each
  show "\<exists>s' hs. delete_Fds_info E (o2n_fds_info s ! i) s = Inr s' \<and>
               registry_inv s' \<and> closed_inv s' \<and> alloc_inv s' \<and>
               length (o2n_fds s') = length (o2n_fds s) - 1 \<and>
               length (o2n_fds_info s') = length (o2n_fds_info s) - 1 \<and>
               (i < length (o2n_fds_info s) - 1 \<longrightarrow>
                  o2n_fds_info s' ! i = last (o2n_fds_info s) \<and>
                  (\<exists>r. heap s' (last (o2n_fds_info s)) = Some r \<and> fds_index r = int i) \<and>
                  get_socket (last (o2n_fds_info s)) s' = Inr (fd (o2n_fds s' ! i))) \<and>
               o2n_fds_info s' = butlast ((o2n_fds_info s)[i := last (o2n_fds_info s)]) \<and>
               heap s' (o2n_fds_info s ! i) = None \<and>
               (case owner fi of None \<Rightarrow> hs = [] | Some ow \<Rightarrow> \<exists>st. hs = on_remove E ow st) \<and>
               (\<forall>j < length (o2n_fds_info s').
                  (o2n_fds_info s' ! j \<notin> set hs \<longrightarrow>
                     o2n_fds s' ! j = ?D ! j \<and>
                     (\<exists>fb. heap s (o2n_fds_info s' ! j) = Some fb \<and>
                           heap s' (o2n_fds_info s' ! j) = Some (fb\<lparr>fds_index := int j\<rparr>))) \<and>
                  (o2n_fds s' ! j = ?D ! j \<or>
                   o2n_fds s' ! j = (?D ! j)\<lparr>fd := INVALID_SOCKET\<rparr>))"
    by (intro exI [of _ s'] exI [of _ hs]) simp
qed

text \<open>
  The theorem of C2 at the cascade registry: socket 9 is registered; the closed
  listener at index 0 is deleted, which moves connection 2 with its descriptor (socket
  7) from index 2 to index 0, and the listener's owner closes connection 1.
\<close>

theorem registry_stays_index_synchronized_witness:
  "(\<exists>a s'. Fds_info_new 9 NET_TCP_CLIENT 0 net_cascade = Inr (a, s') \<and>
      registry_inv s' \<and> closed_inv s' \<and> alloc_inv s' \<and>
      o2n_fds_info s' = [0, 1, 2, a] \<and>
      o2n_fds s' = o2n_fds net_cascade @ [\<lparr>fd = 9, events = POLLIN, revents = 0\<rparr>]) \<and>
   (\<exists>s'. delete_Fds_info sweep_env 0 net_cascade = Inr s' \<and>
      registry_inv s' \<and> closed_inv s' \<and> alloc_inv s' \<and>
      o2n_fds_info s' = [2, 1] \<and>
      o2n_fds s' = [\<lparr>fd = 7, events = POLLIN OR POLLOUT, revents = 0\<rparr>,
                    \<lparr>fd = - 1, events = POLLIN, revents = 0\<rparr>] \<and>
      heap s' 0 = None \<and> heap s' 2 = Some (accepted_conn 0 None) \<and>
      get_socket 2 s' = Inr 7)"
proof -
  note T = registry_stays_index_synchronized
    [OF registry_inv_cascade closed_inv_cascade alloc_inv_cascade]
  have A: "\<exists>a s'. Fds_info_new 9 NET_TCP_CLIENT 0 net_cascade = Inr (a, s') \<and>
      registry_inv s' \<and> closed_inv s' \<and> alloc_inv s' \<and>
      o2n_fds_info s' = [0, 1, 2, a] \<and>
      o2n_fds s' = o2n_fds net_cascade @ [\<lparr>fd = 9, events = POLLIN, revents = 0\<rparr>]"
    using T [OF hooks_ok_sweep, of 9 NET_TCP_CLIENT 0, THEN conjunct1]
    by (auto simp: INVALID_SOCKET_def net_cascade_simps)
  have "0 < length (o2n_fds_info net_cascade)" by (simp add: net_cascade_simps)
  from T [OF hooks_ok_sweep, THEN conjunct2, rule_format, OF this, of closed_listener]
  obtain s' where s': "delete_Fds_info sweep_env 0 net_cascade = Inr s'"
      "registry_inv s'" "closed_inv s'" "alloc_inv s'"
    by (auto simp: net_cascade_simps)
  from delete_listener_eval s'(1)
  have ev: "o2n_fds_info s' = [2, 1]"
      "o2n_fds s' = [\<lparr>fd = 7, events = POLLIN OR POLLOUT, revents = 0\<rparr>,
                    \<lparr>fd = - 1, events = POLLIN, revents = 0\<rparr>]"
      "heap s' 0 = None" "heap s' 2 = Some (accepted_conn 0 None)"
    by simp_all
  have "get_socket 2 s' = Inr 7"
    using ev by (simp add: get_socket_def accepted_conn_def bounds_check_def)
  with s' ev A show ?thesis by blast
qed

section \<open>The deferred sweep\<close>

text \<open>
  C3. One call of \<^verbatim>\<open>o2n_free_deleted_sockets\<close> returns, and afterwards the process-wide
  flag is clear and no registered connection is marked for deletion: every connection
  that was marked at the start is out of the registry, and so is every connection that
  the \<^verbatim>\<open>remove()\<close> hook of a removed connection's owner named (\<open>st\<close> is the state the hook
  saw). No second call is needed. The sweep removes nothing else and loses nothing:
  \<^item> the owner calls \<open>evs\<close> it makes are \<^verbatim>\<open>remove()\<close> calls, one for every removed
    connection that has an owner;
  \<^item> a connection that is still registered was not marked, is the same object except
    for its index, and has the descriptor it had before;
  \<^item> a connection that is no longer registered is deallocated; it was marked at the
    start or named by the hook of a removed owner, and its own owner was notified;
  \<^item> so a connection that was not marked and that no hook names stays registered;
  \<^item> objects outside the registry are untouched.
\<close>

theorem sweep_removes_every_marked_connection:
  assumes "hooks_ok E" "registry_inv s" "closed_inv s" "flag_inv s"
  shows "\<exists>s' evs. o2n_free_deleted_sockets E s = Inr s' \<and>
           \<not> o2n_socket_delete_flag s' \<and> registry_inv s' \<and>
           (\<forall>i < length (o2n_fds_info s'). \<forall>fi.
              heap s' (o2n_fds_info s' ! i) = Some fi \<longrightarrow> \<not> delete_me fi) \<and>
           set (o2n_fds_info s') \<subseteq> set (o2n_fds_info s) \<and>
           (\<forall>a \<in> set (o2n_fds_info s). \<forall>fa.
              heap s a = Some fa \<and> delete_me fa \<longrightarrow> a \<notin> set (o2n_fds_info s')) \<and>
           calls s' = calls s @ evs \<and>
           length evs = card {a \<in> set (o2n_fds_info s) - set (o2n_fds_info s').
                               \<exists>fa ow. heap s a = Some fa \<and> owner fa = Some ow} \<and>
           (\<forall>e \<in> set evs. \<exists>a fa ow st.
              e = Removed ow \<and> a \<in> set (o2n_fds_info s) \<and> a \<notin> set (o2n_fds_info s') \<and>
              heap s a = Some fa \<and> owner fa = Some ow \<and>
              (\<forall>b \<in> set (on_remove E ow st). b \<notin> set (o2n_fds_info s'))) \<and>
           (\<forall>a \<in> set (o2n_fds_info s'). \<exists>fa fa'.
              heap s a = Some fa \<and> heap s' a = Some fa' \<and> \<not> delete_me fa \<and>
              fa' = fa\<lparr>fds_index := fds_index fa'\<rparr> \<and>
              o2n_fds s' ! nat (fds_index fa') = o2n_fds s ! nat (fds_index fa)) \<and>
           (\<forall>a \<in> set (o2n_fds_info s). a \<notin> set (o2n_fds_info s') \<longrightarrow>
              heap s' a = None \<and>
              (\<exists>fa. heap s a = Some fa \<and>
                 (delete_me fa \<or>
                  (\<exists>ow st. Removed ow \<in> set evs \<and> a \<in> set (on_remove E ow st))) \<and>
                 (\<forall>ow. owner fa = Some ow \<longrightarrow> Removed ow \<in> set evs))) \<and>
           (\<forall>a \<in> set (o2n_fds_info s). \<forall>fa.
              heap s a = Some fa \<and> \<not> delete_me fa \<and>
              (\<forall>ow st. a \<notin> set (on_remove E ow st)) \<longrightarrow> a \<in> set (o2n_fds_info s')) \<and>
           (\<forall>a. a \<notin> set (o2n_fds_info s) \<longrightarrow> heap s' a = heap s a)"
proof -
  from sweep_registered [OF assms]
  obtain s' where s': "o2n_free_deleted_sockets E s = Inr s'" "\<not> o2n_socket_delete_flag s'"
      "registry_inv s'" "flag_inv s'" "set (o2n_fds_info s') \<subseteq> set (o2n_fds_info s)"
      "marks_mono s s'"
    by blast
  from sweep_swept [OF assms(1,2,3)] s'(1)
  obtain evs where sw: "swept E s s' evs" by auto
  let ?I = "set (o2n_fds_info s)" and ?I' = "set (o2n_fds_info s')"
  from sw have w1: "calls s' = calls s @ evs"
    and w3: "\<forall>a. a \<notin> ?I \<longrightarrow> heap s' a = heap s a"
    and w4: "\<And>e. e \<in> set evs \<Longrightarrow> \<exists>a fa ow st.
          e = Removed ow \<and> a \<in> ?I \<and> a \<notin> ?I' \<and> heap s a = Some fa \<and> owner fa = Some ow \<and>
          (\<forall>b \<in> set (on_remove E ow st). b \<in> ?I' \<longrightarrow> (\<exists>fb. heap s' b = Some fb \<and> delete_me fb))"
    and w5: "length evs = card {a \<in> ?I - ?I'. \<exists>fa ow. heap s a = Some fa \<and> owner fa = Some ow}"
    and w6: "\<And>a. a \<in> ?I' \<Longrightarrow> \<exists>fa fa'.
          heap s a = Some fa \<and> heap s' a = Some fa' \<and> owner fa' = owner fa \<and>
          (delete_me fa \<longrightarrow> delete_me fa') \<and>
          (if delete_me fa'
           then delete_me fa \<or> (\<exists>ow st. Removed ow \<in> set evs \<and> a \<in> set (on_remove E ow st))
           else fa' = fa\<lparr>fds_index := fds_index fa'\<rparr> \<and>
                o2n_fds s' ! nat (fds_index fa') = o2n_fds s ! nat (fds_index fa))"
    and w7: "\<forall>a \<in> ?I - ?I'. heap s' a = None \<and>
          (\<exists>fa. heap s a = Some fa \<and>
             (delete_me fa \<or> (\<exists>ow st. Removed ow \<in> set evs \<and> a \<in> set (on_remove E ow st))) \<and>
             (\<forall>ow. owner fa = Some ow \<longrightarrow> Removed ow \<in> set evs))"
    unfolding swept_def by blast+
  have none: "\<forall>i < length (o2n_fds_info s'). \<forall>fi.
              heap s' (o2n_fds_info s' ! i) = Some fi \<longrightarrow> \<not> delete_me fi"
    using s'(2,4) unfolding flag_inv_def by blast
  have none': "\<not> delete_me fb" if "b \<in> ?I'" "heap s' b = Some fb" for b fb
    using none that by (auto simp: in_set_conv_nth)
  have gone: "\<forall>a \<in> ?I. \<forall>fa. heap s a = Some fa \<and> delete_me fa \<longrightarrow> a \<notin> ?I'"
  proof (intro ballI allI impI notI)
    fix a fa
    assume a: "heap s a = Some fa \<and> delete_me fa" and in': "a \<in> ?I'"
    from w6 [OF in'] a obtain fa' where "heap s' a = Some fa'" "delete_me fa'" by auto
    with none' [OF in'] show False by blast
  qed
  have ev: "\<forall>e \<in> set evs. \<exists>a fa ow st.
              e = Removed ow \<and> a \<in> ?I \<and> a \<notin> ?I' \<and>
              heap s a = Some fa \<and> owner fa = Some ow \<and>
              (\<forall>b \<in> set (on_remove E ow st). b \<notin> ?I')"
  proof
    fix e assume "e \<in> set evs"
    from w4 [OF this] obtain a fa ow st where h: "e = Removed ow" "a \<in> ?I" "a \<notin> ?I'"
        "heap s a = Some fa" "owner fa = Some ow"
        "\<forall>b \<in> set (on_remove E ow st). b \<in> ?I' \<longrightarrow> (\<exists>fb. heap s' b = Some fb \<and> delete_me fb)"
      by blast
    from h(6) none' have "\<forall>b \<in> set (on_remove E ow st). b \<notin> ?I'" by blast
    with h(1-5) show "\<exists>a fa ow st.
              e = Removed ow \<and> a \<in> ?I \<and> a \<notin> ?I' \<and>
              heap s a = Some fa \<and> owner fa = Some ow \<and>
              (\<forall>b \<in> set (on_remove E ow st). b \<notin> ?I')"
      by blast
  qed
  have surv: "\<forall>a \<in> ?I'. \<exists>fa fa'.
              heap s a = Some fa \<and> heap s' a = Some fa' \<and> \<not> delete_me fa \<and>
              fa' = fa\<lparr>fds_index := fds_index fa'\<rparr> \<and>
              o2n_fds s' ! nat (fds_index fa') = o2n_fds s ! nat (fds_index fa)"
  proof
    fix a assume a: "a \<in> ?I'"
    from w6 [OF a] obtain fa fa' where h: "heap s a = Some fa" "heap s' a = Some fa'"
        "delete_me fa \<longrightarrow> delete_me fa'"
        "if delete_me fa'
         then delete_me fa \<or> (\<exists>ow st. Removed ow \<in> set evs \<and> a \<in> set (on_remove E ow st))
         else fa' = fa\<lparr>fds_index := fds_index fa'\<rparr> \<and>
              o2n_fds s' ! nat (fds_index fa') = o2n_fds s ! nat (fds_index fa)"
      by blast
    from none' [OF a h(2)] have n: "\<not> delete_me fa'" .
    with h show "\<exists>fa fa'.
              heap s a = Some fa \<and> heap s' a = Some fa' \<and> \<not> delete_me fa \<and>
              fa' = fa\<lparr>fds_index := fds_index fa'\<rparr> \<and>
              o2n_fds s' ! nat (fds_index fa') = o2n_fds s ! nat (fds_index fa)"
      by (intro exI [of _ fa] exI [of _ fa']) auto
  qed
  have rem: "\<forall>a \<in> ?I. a \<notin> ?I' \<longrightarrow>
              heap s' a = None \<and>
              (\<exists>fa. heap s a = Some fa \<and>
                 (delete_me fa \<or>
                  (\<exists>ow st. Removed ow \<in> set evs \<and> a \<in> set (on_remove E ow st))) \<and>
                 (\<forall>ow. owner fa = Some ow \<longrightarrow> Removed ow \<in> set evs))"
    using w7 by blast
  have stay: "\<forall>a \<in> ?I. \<forall>fa.
              heap s a = Some fa \<and> \<not> delete_me fa \<and>
              (\<forall>ow st. a \<notin> set (on_remove E ow st)) \<longrightarrow> a \<in> ?I'"
  proof (intro ballI allI impI)
    fix a fa
    assume a: "a \<in> ?I"
      and h: "heap s a = Some fa \<and> \<not> delete_me fa \<and> (\<forall>ow st. a \<notin> set (on_remove E ow st))"
    show "a \<in> ?I'"
    proof (rule ccontr)
      assume "a \<notin> ?I'"
      with a rem h show False by auto
    qed
  qed
  from s'(1,2,3,5) none gone w1 w5 ev surv rem stay w3 show ?thesis by blast
qed

text \<open>
  The theorem of C3 at the cascade registry with the owner that closes connection 1:
  the marked listener 0 goes first, its owner's hook marks connection 1, which goes
  in the same call and whose owner 8 is notified; connection 2, never marked, stays,
  re-stamped with index 0 and with its own descriptor (socket 7).
\<close>

theorem sweep_removes_every_marked_connection_witness:
  "\<exists>s'. o2n_free_deleted_sockets sweep_env net_cascade = Inr s' \<and>
      \<not> o2n_socket_delete_flag s' \<and> registry_inv s' \<and>
      o2n_fds_info s' = [2] \<and>
      o2n_fds s' = [\<lparr>fd = 7, events = POLLIN OR POLLOUT, revents = 0\<rparr>] \<and>
      calls s' = [Removed 7, Removed 8] \<and>
      heap s' 0 = None \<and> heap s' 1 = None \<and> heap s' 2 = Some (accepted_conn 0 None)"
proof -
  from sweep_removes_every_marked_connection
    [OF hooks_ok_sweep registry_inv_cascade closed_inv_cascade flag_inv_cascade]
  obtain s' where s': "o2n_free_deleted_sockets sweep_env net_cascade = Inr s'"
      "\<not> o2n_socket_delete_flag s'" "registry_inv s'"
    by blast
  from sweep_cascade_eval s'(1)
  have "o2n_fds_info s' = [2]"
      "o2n_fds s' = [\<lparr>fd = 7, events = POLLIN OR POLLOUT, revents = 0\<rparr>]"
      "calls s' = [Removed 7, Removed 8]"
      "heap s' 0 = None" "heap s' 1 = None" "heap s' 2 = Some (accepted_conn 0 None)"
    by simp_all
  with s' show ?thesis by blast
qed

section \<open>Errors of the send system call\<close>

text \<open>
  C6. When the system call of a non-blocking send fails with EAGAIN or EINTR,
  \<^verbatim>\<open>send\<close> returns \<^verbatim>\<open>O2_BLOCKED\<close>. The state it returns is the state before the call
  with POLLOUT added to the events of the connection's descriptor (and one more system
  call counted): the heap is the same, so the message is still the head of the queue
  and \<^verbatim>\<open>out_msg_sent\<close> is what it was; nothing is written, freed or closed, no owner
  is called and no diagnostic is printed.
\<close>

theorem retryable_send_error_blocks:
  assumes "heap s this = Some fi" "out_message fi = msg # rest"
    and "fst (sys_send E (clock s) (send_size fi msg)) < 0"
    and "\<not> TERMINATING_SOCKET_ERROR (snd (sys_send E (clock s) (send_size fi msg)))"
    and "net_tag fi \<noteq> NET_INFO_CLOSED" "bounds_check (o2n_fds s) (fds_index fi)"
  shows "\<exists>s'. send E False this s = Some (Inr (O2_BLOCKED, s')) \<and>
           s' = set_POLLOUT (nat (fds_index fi)) (s\<lparr>clock := Suc (clock s)\<rparr>) \<and>
           heap s' = heap s \<and> heap s' this = Some fi \<and>
           o2n_fds_info s' = o2n_fds_info s \<and> wire s' = wire s \<and> freed s' = freed s \<and>
           closed s' = closed s \<and> calls s' = calls s \<and> diag s' = diag s \<and>
           o2n_socket_delete_flag s' = o2n_socket_delete_flag s \<and>
           o2n_fds s' = (o2n_fds s)[nat (fds_index fi) :=
             (o2n_fds s ! nat (fds_index fi))
               \<lparr>events := events (o2n_fds s ! nat (fds_index fi)) OR POLLOUT\<rparr>]"
proof -
  have "send E False this s = send_loop E False this (nat (fds_index fi)) s"
    using assms(1,5,6) by (simp add: send_def Let_def)
  with send_loop_retryable [OF assms(1-4), of "nat (fds_index fi)"] assms(1)
  show ?thesis by (simp add: set_POLLOUT_def)
qed

text \<open>The theorem of C6 at the example client, when every \<^verbatim>\<open>send\<close> would block.\<close>

theorem retryable_send_error_blocks_witness:
  "\<exists>s'. send env_wouldblock False 0 net_client = Some (Inr (O2_BLOCKED, s')) \<and>
           s' = set_POLLOUT (nat (fds_index example_client))
                  (net_client\<lparr>clock := Suc (clock net_client)\<rparr>) \<and>
           heap s' = heap net_client \<and> heap s' 0 = Some example_client \<and>
           o2n_fds_info s' = o2n_fds_info net_client \<and> wire s' = wire net_client \<and>
           freed s' = freed net_client \<and> closed s' = closed net_client \<and>
           calls s' = calls net_client \<and> diag s' = diag net_client \<and>
           o2n_socket_delete_flag s' = o2n_socket_delete_flag net_client \<and>
           o2n_fds s' = (o2n_fds net_client)[nat (fds_index example_client) :=
             (o2n_fds net_client ! nat (fds_index example_client))
               \<lparr>events := events (o2n_fds net_client ! nat (fds_index example_client)) OR POLLOUT\<rparr>]"
  by (rule retryable_send_error_blocks [where rest = "[hello]" and msg = hello])
     (simp_all add: net_client_simps env_wouldblock_def example_env_def
        TERMINATING_SOCKET_ERROR_def)



section \<open>Closing a socket twice\<close>

text \<open>
  C10. \<^verbatim>\<open>close_socket\<close> on a registered connection whose socket is open (or that is
  already closed) returns; afterwards the inbound message is NULL, the outbound queue
  is empty, the descriptor's fd is \<^verbatim>\<open>INVALID_SOCKET\<close>, the state is CLOSED and
  \<^verbatim>\<open>delete_me\<close> is set. A second call returns the very same state: nothing is
  freed, and no socket is closed again.
\<close>

theorem close_socket_idempotent:
  assumes "heap s this = Some fi"
    and "bounds_check (o2n_fds s) (fds_index fi)"
    and "fd (o2n_fds s ! nat (fds_index fi)) \<noteq> INVALID_SOCKET \<or> net_tag fi = NET_INFO_CLOSED"
  shows "\<exists>s1 fi1. close_socket this s = Inr s1 \<and> heap s1 this = Some fi1 \<and>
           in_message fi1 = None \<and> out_message fi1 = [] \<and>
           fd (o2n_fds s1 ! nat (fds_index fi1)) = INVALID_SOCKET \<and>
           net_tag fi1 = NET_INFO_CLOSED \<and> delete_me fi1 \<and>
           close_socket this s1 = Inr s1"
proof -
  note nlt = bounds_check_nat [OF assms(2)]
  have "\<exists>s1. close_socket this s = Inr s1"
    using assms nlt
    by (cases "fd (o2n_fds s ! nat (fds_index fi)) = INVALID_SOCKET")
       (simp_all add: close_socket_def Let_def bounds_check_def split: option.splits)
  then obtain s1 where s1: "close_socket this s = Inr s1" by blast
  have "\<exists>fi1. heap s1 this = Some fi1 \<and> in_message fi1 = None \<and>
      out_message fi1 = [] \<and> net_tag fi1 = NET_INFO_CLOSED \<and> delete_me fi1 \<and>
      fds_index fi1 = fds_index fi"
    using assms s1 nlt
    by (auto simp: close_socket_def Let_def bounds_check_def
        split: option.splits if_splits)
  then obtain fi1 where fi1: "heap s1 this = Some fi1" "in_message fi1 = None"
      "out_message fi1 = []" "net_tag fi1 = NET_INFO_CLOSED" "delete_me fi1"
      "fds_index fi1 = fds_index fi"
    by blast
  have len: "length (o2n_fds s1) = length (o2n_fds s)"
    using assms s1
    by (auto simp: close_socket_def Let_def split: option.splits if_splits)
  have fdv: "fd (o2n_fds s1 ! nat (fds_index fi1)) = INVALID_SOCKET"
    using assms s1 fi1(6) nlt
    by (auto simp: close_socket_def Let_def bounds_check_def
        split: option.splits if_splits)
  have flag: "o2n_socket_delete_flag s1"
    using assms s1
    by (auto simp: close_socket_def Let_def split: option.splits if_splits)
  have "close_socket this s1 = Inr s1"
    using fi1 len fdv flag assms(2)
    by (simp add: close_socket_def Let_def bounds_check_def fun_upd_idem)
  with s1 fi1 fdv show ?thesis by simp
qed

text \<open>The theorem of C10 at the example client, whose socket 5 is open.\<close>

theorem close_socket_idempotent_witness:
  "\<exists>s1 fi1. close_socket 0 net_client = Inr s1 \<and> heap s1 0 = Some fi1 \<and>
           in_message fi1 = None \<and> out_message fi1 = [] \<and>
           fd (o2n_fds s1 ! nat (fds_index fi1)) = INVALID_SOCKET \<and>
           net_tag fi1 = NET_INFO_CLOSED \<and> delete_me fi1 \<and>
           close_socket 0 s1 = Inr s1"
  using close_socket_idempotent [of net_client 0 example_client]
  by (simp add: net_client_def net_init_def example_client_def bounds_check_def
      INVALID_SOCKET_def)

section \<open>Partial writes\<close>

text \<open>
  C4. A framed message \<open>m\<close> is queued alone on an established connection, nothing of it
  sent, and the socket accepts at most \<open>cap\<close> bytes per \<^verbatim>\<open>send\<close> call (\<open>cap \<ge> 1\<close>).
  Then \<open>j\<close> write-ready events of the reactor return, and the socket has accepted the
  first \<open>j * cap\<close> bytes of the framing, each byte once and in order. Before the
  \<open>\<lceil>(4 + L) / cap\<rceil>\<close>-th event the message is still the queue head, its offset
  \<^verbatim>\<open>out_msg_sent\<close> is \<open>j * cap\<close>, and after a write POLLOUT is registered. From that event
  on the whole framing (length prefix and payload) is on the wire, the message is freed,
  the queue is empty and POLLOUT is cleared.
\<close>

theorem partial_writes_resume_at_offset:
  assumes "established this k sock W s" and "heap s this = Some fi"
    and "out_message fi = [m]" and "out_msg_sent fi = 0"
    and "capped E cap" and "\<forall>t. sys_poll E t k = POLLOUT" and "0 \<le> sock"
  shows "\<exists>s' fi'. run_ops E this k (replicate j WriteReady) s = Some (Inr s') \<and>
           heap s' this = Some fi' \<and>
           wire s' sock = wire s sock @ take (j * nat cap) (frame m) \<and>
           (if j < nat ((4 + msg_length m + cap - 1) div cap)
            then out_message fi' = [m] \<and> out_msg_sent fi' = int j * cap \<and>
                 freed s' = freed s \<and>
                 (0 < j \<longrightarrow> has_flag (events (o2n_fds s' ! k)) POLLOUT)
            else wire s' sock = wire s sock @ frame m \<and>
                 out_message fi' = [] \<and> out_msg_sent fi' = 0 \<and>
                 freed s' = freed s @ [m] \<and>
                 \<not> has_flag (events (o2n_fds s' ! k)) POLLOUT)"
proof -
  from assms(5) have c1: "1 \<le> cap" by (simp add: capped_def)
  from assms(1,2) have "queue_ok fi" unfolding established_def by auto
  with assms(3) have "msg_ok m" by (simp add: queue_ok_def)
  then have len: "int (length (frame m)) = 4 + msg_length m"
    by (simp add: length_frame msg_ok_def)
  then have pos: "0 < length (frame m)" by (simp add: length_frame)
  have hp: "head_progress this sock m (wire s sock) (freed s) 0 s"
    unfolding head_progress_def using assms(2,3,4) pos by simp
  from write_ready_events_progress [OF assms(5,6,7) assms(1) hp, of j]
  obtain s' where s': "run_ops E this k (replicate j WriteReady) s = Some (Inr s')"
      "head_progress this sock m (wire s sock) (freed s) (j * nat cap) s'"
      "0 < j \<longrightarrow> (has_flag (events (o2n_fds s' ! k)) POLLOUT \<longleftrightarrow>
                    j * nat cap < length (frame m))"
    by auto
  have "j < nat ((4 + msg_length m + cap - 1) div cap) \<longleftrightarrow>
        int j < (4 + msg_length m + cap - 1) div cap"
    by auto
  also have "\<dots> \<longleftrightarrow> int j * cap < 4 + msg_length m" by (rule ceil_count [OF c1])
  also have "\<dots> \<longleftrightarrow> int (j * nat cap) < int (length (frame m))"
    using c1 len by simp
  finally have "j < nat ((4 + msg_length m + cap - 1) div cap) \<longleftrightarrow>
                int (j * nat cap) < int (length (frame m))" .
  then have cnt: "j < nat ((4 + msg_length m + cap - 1) div cap) \<longleftrightarrow>
                  j * nat cap < length (frame m)"
    by (simp only: of_nat_less_iff)
  have N0: "\<not> j * nat cap < length (frame m) \<Longrightarrow> 0 < j"
    using pos by (cases j) simp_all
  from s'(2) obtain fi' where fi': "heap s' this = Some fi'"
      "wire s' sock = wire s sock @ take (j * nat cap) (frame m)"
      "if j * nat cap < length (frame m)
       then out_message fi' = [m] \<and> out_msg_sent fi' = int (j * nat cap) \<and> freed s' = freed s
       else out_message fi' = [] \<and> out_msg_sent fi' = 0 \<and> freed s' = freed s @ [m]"
    unfolding head_progress_def by blast
  show ?thesis
  proof (cases "j * nat cap < length (frame m)")
    case True
    with s'(1,3) fi' cnt c1 show ?thesis by simp
  next
    case False
    with s'(1,3) fi' cnt N0 show ?thesis by simp
  qed
qed

text \<open>
  The theorem of C4 for \<open>hello\<close> (payload of 4 bytes, framing of 8) and three bytes per
  call: after \<open>\<lceil>8 / 3\<rceil> = 3\<close> events the wire holds the framing.
\<close>

theorem partial_writes_resume_at_offset_witness:
  "\<exists>s' fi'. run_ops env_capped 0 0 (replicate 3 WriteReady) net_queued = Some (Inr s') \<and>
     heap s' 0 = Some fi' \<and> wire s' 5 = [0, 0, 0, 4, 1, 2, 3, 4] \<and>
     out_message fi' = [] \<and> out_msg_sent fi' = 0 \<and> freed s' = [hello] \<and>
     \<not> has_flag (events (o2n_fds s' ! 0)) POLLOUT"
proof -
  have a: "heap net_queued 0 = Some queued_client"
    by (simp add: net_queued_def net_init_def)
  have b: "out_message queued_client = [hello]" "out_msg_sent queued_client = 0"
    by (simp_all add: queued_client_def)
  have c: "\<forall>t. sys_poll env_capped t 0 = POLLOUT" by (simp add: env_capped_def)
  have d: "wire net_queued 5 = []" "freed net_queued = []"
    by (simp_all add: net_queued_def net_init_def)
  have N: "\<not> 3 < nat ((4 + msg_length hello + 3 - 1) div 3)" by (simp add: hello_def)
  from partial_writes_resume_at_offset [OF established_net_queued a b capped_env_capped c, of 3]
  show ?thesis using N d by (simp add: frame_hello)
qed

section \<open>Chunked receive\<close>

text \<open>
  C5. The framing of a message \<open>m\<close> arrives at a connection that has no message in
  assembly, split into non-empty chunks \<open>cs\<close> in any way (\<open>q\<close> is the part that has not
  arrived yet), and \<^verbatim>\<open>read_whole_message\<close> is called once per chunk. The socket has
  \<^verbatim>\<open>O_NONBLOCK\<close>, as every socket made by \<^verbatim>\<open>o2n_tcp_socket_new\<close> has, and the peer has not
  closed, so that reading the empty buffer fails at once with a non-fatal \<^verbatim>\<open>errno\<close>. Then
  every call returns. Every call that exhausts its chunk before the framing is complete
  returns \<^verbatim>\<open>O2_FAIL\<close> (not read yet), and the object keeps what has been accumulated
  (\<open>rstate\<close>: the header bytes received so far, or, from four bytes on, the decoded
  length and the payload bytes received so far in the allocated message). The call for
  the chunk that completes the framing returns \<^verbatim>\<open>O2_SUCCESS\<close> with \<^verbatim>\<open>in_message\<close> equal
  to \<open>m\<close>: four header bytes and \<^verbatim>\<open>length\<close> payload bytes were read, the buffer is empty,
  nothing was freed and nothing delivered twice.
\<close>

theorem chunked_receive_assembles_one_message:
  assumes "heap s this = Some fi" and "\<not> raw_flag fi"
    and "net_tag fi = NET_TCP_CLIENT \<or> net_tag fi = NET_TCP_CONNECTION"
    and "in_length_got fi = 0" and "in_message fi = None"
    and "rx s sock = []" and "msg_ok m" and "recv_blocks E" and "nonblock s sock"
    and "[] \<notin> set cs" and "concat cs @ q = frame m"
  shows "\<exists>rcs s' fi'. read_chunks E this sock cs s = Some (Inr (rcs, s')) \<and>
           heap s' this = Some fi' \<and> rx s' sock = [] \<and>
           freed s' = freed s \<and> calls s' = calls s \<and>
           (if q = []
            then rcs = replicate (length cs - 1) O2_FAIL @ [O2_SUCCESS] \<and>
                 in_message fi' = Some m \<and> in_length_got fi' = 4 \<and>
                 in_msg_got fi' = msg_length m
            else rcs = replicate (length cs) O2_FAIL \<and> rstate (concat cs) m fi')"
proof -
  have rs: "rstate [] m fi" using assms(2-5) by (simp add: rstate_def)
  have fr: "[] @ concat cs @ q = frame m" using assms(11) by simp
  have "length (frame m) \<noteq> 0" by (simp add: length_frame)
  then have ne: "concat cs @ q \<noteq> []" unfolding assms(11) by simp
  from read_chunks_prefix [OF assms(7,8) assms(1) rs assms(6,10) fr ne assms(9),
      unfolded append_Nil]
  obtain rcs s' fi' where "read_chunks E this sock cs s = Some (Inr (rcs, s'))"
      "heap s' this = Some fi'" "rx s' sock = []" "calls s' = calls s" "freed s' = freed s"
      "if q = []
       then rcs = replicate (length cs - 1) O2_FAIL @ [O2_SUCCESS] \<and>
            in_message fi' = Some m \<and> in_length_got fi' = 4 \<and>
            in_msg_got fi' = msg_length m
       else rcs = replicate (length cs) O2_FAIL \<and> rstate (concat cs) m fi'"
    by blast
  then show ?thesis
    by (intro exI [of _ rcs] exI [of _ s'] exI [of _ fi']) simp
qed

text \<open>
  The theorem of C5 for the framing of \<open>hello\<close> arriving as 1 + 4 + 3 bytes at the client
  socket 5: the first chunk is a single byte, the second ends inside the payload.
\<close>

theorem chunked_receive_assembles_one_message_witness:
  "\<exists>s' fi'. read_chunks example_env 0 5 [[0], [0, 0, 4, 1], [2, 3, 4]] net_idle =
              Some (Inr ([O2_FAIL, O2_FAIL, O2_SUCCESS], s')) \<and>
     heap s' 0 = Some fi' \<and> rx s' 5 = [] \<and> in_message fi' = Some hello \<and>
     in_length_got fi' = 4 \<and> in_msg_got fi' = 4"
proof -
  have c: "concat [[0], [0, 0, 4, 1], [2, 3, 4]] @ [] = frame hello"
    by (simp add: frame_hello)
  have n: "[] \<notin> set [[0 :: byte], [0, 0, 4, 1], [2, 3, 4]]" by simp
  have t: "net_tag idle_client = NET_TCP_CLIENT \<or> net_tag idle_client = NET_TCP_CONNECTION"
    by (simp add: net_idle_simps)
  have nb: "nonblock net_idle 5" by (simp add: net_idle_def)
  from chunked_receive_assembles_one_message [OF net_idle_simps(1,2) t net_idle_simps(4,5,7)
      msg_ok_hello recv_blocks_example nb n c]
  show ?thesis by (auto simp del: read_chunks.simps simp add: hello_def)
qed

text \<open>
  C5, on a connection that the listener accepts. \<^verbatim>\<open>read_event_handler\<close> on the listener
  registers socket 6 as a \<^verbatim>\<open>NET_TCP_CONNECTION\<close> at index 1 and leaves it in blocking mode.
  When the four header bytes of the framing of \<open>hello\<close> arrive alone, the call of
  \<^verbatim>\<open>read_whole_message\<close> for this chunk decodes the length and goes on to read the
  payload from the empty buffer. It does not return \<^verbatim>\<open>O2_FAIL\<close>: while the peer sends
  nothing it does not return at all, and when the payload arrives during the wait it
  returns \<^verbatim>\<open>O2_SUCCESS\<close> with the whole message.
\<close>

theorem accepted_connection_waits_for_payload:
  "\<exists>s1 fi. read_event_handler example_env 0 5 net_listener = Some (Inr (O2_SUCCESS, s1)) \<and>
     o2n_fds_info s1 = [0, 1] \<and> fd (o2n_fds s1 ! 1) = 6 \<and> \<not> nonblock s1 6 \<and>
     heap s1 1 = Some fi \<and> net_tag fi = NET_TCP_CONNECTION \<and> \<not> raw_flag fi \<and>
     in_length_got fi = 0 \<and> in_message fi = None \<and> rx s1 6 = [] \<and>
     [0, 0, 0, 4] @ payload hello = frame hello \<and>
     read_chunks example_env 1 6 [[0, 0, 0, 4]] s1 = None \<and>
     (\<exists>s2 fi2. read_chunks env_arrives 1 6 [[0, 0, 0, 4]] s1 = Some (Inr ([O2_SUCCESS], s2)) \<and>
        heap s2 1 = Some fi2 \<and> in_message fi2 = Some hello)"
proof -
  have "[0, 0, 0, 4] @ payload hello = frame hello"
    by (simp only: frame_hello) (simp add: hello_def)
  then show ?thesis
    by (simp add: read_event_handler_def net_listener_def listener_def net_init_def
        example_env_def env_arrives_def Fds_info_new_def Let_def INVALID_SOCKET_def
        read_whole_message_def read_payload_def recvfrom_def error_exit_def
        o2n_message_new_def O2N_MESSAGE_ALLOC_def overwrite_def hello_def
        mem_bytes_of_mem htonl_def mem_bytes_def)
qed

section \<open>The framing round trip\<close>



section \<open>Connecting a client\<close>

text \<open>
  C8. \<^verbatim>\<open>create_tcp_client\<close> in a consistent registry. When no socket can be created, it
  returns NULL and leaves the registry as it is. When \<^verbatim>\<open>connect\<close> succeeds at once or is in
  progress, it returns the new connection, registered with its non-blocking socket at
  the end of both vectors, without an owner and with nothing queued, and no owner has
  been called. After \<^verbatim>\<open>connect\<close> reported \<^verbatim>\<open>EINPROGRESS\<close> the connection is
  \<^verbatim>\<open>NET_TCP_CONNECTING\<close> with write-interest registered, and a write-ready tick of the
  reactor makes it \<^verbatim>\<open>NET_TCP_CLIENT\<close>, calls \<^verbatim>\<open>connected()\<close> of the owner attached in the
  meantime, once, and drops the write-interest. After an immediate success the connection
  is \<^verbatim>\<open>NET_TCP_CLIENT\<close> at once, with read-interest only, and the next tick of the reactor,
  whatever \<^verbatim>\<open>poll\<close> reports, does not call \<^verbatim>\<open>connected()\<close>; a write-ready tick calls no
  owner at all.
\<close>

theorem connect_outcomes:
  assumes "registry_inv s" and "closed_inv s" and "alloc_inv s"
  shows "(sys_socket E (clock s) = INVALID_SOCKET \<longrightarrow>
            (\<exists>s'. create_tcp_client E ra s = Inr (None, s') \<and>
               o2n_fds_info s' = o2n_fds_info s \<and> o2n_fds s' = o2n_fds s \<and>
               heap s' = heap s \<and> calls s' = calls s \<and> closed s' = closed s)) \<and>
         (sys_socket E (clock s) \<noteq> INVALID_SOCKET \<and>
          \<not> (fst (sys_connect E (Suc (clock s))) = - 1 \<and>
             snd (sys_connect E (Suc (clock s))) \<noteq> EINPROGRESS) \<longrightarrow>
            (\<exists>s' fi. create_tcp_client E ra s = Inr (Some (next_addr s), s') \<and>
               o2n_fds_info s' = o2n_fds_info s @ [next_addr s] \<and>
               length (o2n_fds s') = Suc (length (o2n_fds s)) \<and>
               take (length (o2n_fds s)) (o2n_fds s') = o2n_fds s \<and>
               fd (o2n_fds s' ! length (o2n_fds s)) = sys_socket E (clock s) \<and>
               heap s' (next_addr s) = Some fi \<and> fds_index fi = int (length (o2n_fds s)) \<and>
               owner fi = None \<and> out_message fi = [] \<and>
               nonblock s' (sys_socket E (clock s)) \<and> calls s' = calls s \<and>
               closed s' = closed s \<and>
               (if fst (sys_connect E (Suc (clock s))) = - 1
                then net_tag fi = NET_TCP_CONNECTING \<and>
                     events (o2n_fds s' ! length (o2n_fds s)) = POLLIN OR POLLOUT \<and>
                     (\<forall>E' own. 0 \<le> sys_socket E (clock s) \<and>
                         sys_poll E' (clock s') (length (o2n_fds s)) = POLLOUT \<longrightarrow>
                         (\<exists>t fi'. ready_event E' (length (o2n_fds s))
                                    (s'\<lparr>heap := (heap s')(next_addr s \<mapsto> fi\<lparr>owner := own\<rparr>)\<rparr>) =
                                    Some (Inr t) \<and>
                            heap t (next_addr s) = Some fi' \<and> net_tag fi' = NET_TCP_CLIENT \<and>
                            calls t =
                              calls s @ (case own of None \<Rightarrow> [] | Some ow \<Rightarrow> [Connected ow]) \<and>
                            events (o2n_fds t ! length (o2n_fds s)) = POLLIN))
                else net_tag fi = NET_TCP_CLIENT \<and>
                     events (o2n_fds s' ! length (o2n_fds s)) = POLLIN \<and>
                     (\<forall>E' own t. ready_event E' (length (o2n_fds s))
                                    (s'\<lparr>heap := (heap s')(next_addr s \<mapsto> fi\<lparr>owner := own\<rparr>)\<rparr>) =
                                    Some (Inr t) \<longrightarrow>
                         (\<exists>evs. calls t = calls s @ evs \<and> (\<forall>ow. Connected ow \<notin> set evs))) \<and>
                     (\<forall>E' own. 0 \<le> sys_socket E (clock s) \<and>
                         sys_poll E' (clock s') (length (o2n_fds s)) = POLLOUT \<longrightarrow>
                         (\<exists>t. ready_event E' (length (o2n_fds s))
                                 (s'\<lparr>heap := (heap s')(next_addr s \<mapsto> fi\<lparr>owner := own\<rparr>)\<rparr>) =
                                 Some (Inr t) \<and>
                              calls t = calls s)))))"
proof (intro conjI impI)
  assume "sys_socket E (clock s) = INVALID_SOCKET"
  then show "\<exists>s'. create_tcp_client E ra s = Inr (None, s') \<and>
               o2n_fds_info s' = o2n_fds_info s \<and> o2n_fds s' = o2n_fds s \<and>
               heap s' = heap s \<and> calls s' = calls s \<and> closed s' = closed s"
    by (simp add: create_tcp_client_def o2n_tcp_socket_new_def Let_def)
next
  let ?sock = "sys_socket E (clock s)" and ?k = "length (o2n_fds s)" and ?a = "next_addr s"
  let ?rc = "fst (sys_connect E (Suc (clock s)))"
  assume h: "?sock \<noteq> INVALID_SOCKET \<and>
             \<not> (?rc = - 1 \<and> snd (sys_connect E (Suc (clock s))) \<noteq> EINPROGRESS)"
  from create_tcp_client_eq [OF assms _, of E ra] h
  obtain s2 fi where s2: "heap s2 ?a = Some fi" "fds_index fi = int ?k"
      "net_tag fi = NET_TCP_CONNECTING" "owner fi = None" "out_message fi = []"
      "o2n_fds_info s2 = o2n_fds_info s @ [?a]"
      "o2n_fds s2 = o2n_fds s @ [\<lparr>fd = ?sock, events = POLLIN, revents = 0\<rparr>]"
      "calls s2 = calls s" "closed s2 = closed s" "nonblock s2 ?sock"
      and run: "create_tcp_client E ra s =
         (if ?rc = - 1
          then Inr (Some ?a, set_POLLOUT ?k (s2\<lparr>clock := Suc (Suc (clock s))\<rparr>))
          else Inr (Some ?a,
                 s2\<lparr>clock := Suc (Suc (clock s)),
                    heap := (heap s2)(?a \<mapsto> fi\<lparr>net_tag := NET_TCP_CLIENT\<rparr>)\<rparr>))"
    by auto
  have len: "?k = length (o2n_fds_info s)" using assms(1) by (simp add: registry_inv_alt)
  show "\<exists>s' fi. create_tcp_client E ra s = Inr (Some ?a, s') \<and>
               o2n_fds_info s' = o2n_fds_info s @ [?a] \<and>
               length (o2n_fds s') = Suc ?k \<and>
               take ?k (o2n_fds s') = o2n_fds s \<and>
               fd (o2n_fds s' ! ?k) = ?sock \<and>
               heap s' ?a = Some fi \<and> fds_index fi = int ?k \<and>
               owner fi = None \<and> out_message fi = [] \<and>
               nonblock s' ?sock \<and> calls s' = calls s \<and>
               closed s' = closed s \<and>
               (if ?rc = - 1
                then net_tag fi = NET_TCP_CONNECTING \<and>
                     events (o2n_fds s' ! ?k) = POLLIN OR POLLOUT \<and>
                     (\<forall>E' own. 0 \<le> ?sock \<and> sys_poll E' (clock s') ?k = POLLOUT \<longrightarrow>
                         (\<exists>t fi'. ready_event E' ?k
                                    (s'\<lparr>heap := (heap s')(?a \<mapsto> fi\<lparr>owner := own\<rparr>)\<rparr>) =
                                    Some (Inr t) \<and>
                            heap t ?a = Some fi' \<and> net_tag fi' = NET_TCP_CLIENT \<and>
                            calls t =
                              calls s @ (case own of None \<Rightarrow> [] | Some ow \<Rightarrow> [Connected ow]) \<and>
                            events (o2n_fds t ! ?k) = POLLIN))
                else net_tag fi = NET_TCP_CLIENT \<and>
                     events (o2n_fds s' ! ?k) = POLLIN \<and>
                     (\<forall>E' own t. ready_event E' ?k
                                    (s'\<lparr>heap := (heap s')(?a \<mapsto> fi\<lparr>owner := own\<rparr>)\<rparr>) =
                                    Some (Inr t) \<longrightarrow>
                         (\<exists>evs. calls t = calls s @ evs \<and> (\<forall>ow. Connected ow \<notin> set evs))) \<and>
                     (\<forall>E' own. 0 \<le> ?sock \<and> sys_poll E' (clock s') ?k = POLLOUT \<longrightarrow>
                         (\<exists>t. ready_event E' ?k
                                 (s'\<lparr>heap := (heap s')(?a \<mapsto> fi\<lparr>owner := own\<rparr>)\<rparr>) =
                                 Some (Inr t) \<and>
                              calls t = calls s)))"
  proof (cases "?rc = - 1")
    case True
    let ?s' = "set_POLLOUT ?k (s2\<lparr>clock := Suc (Suc (clock s))\<rparr>)"
    have r: "create_tcp_client E ra s = Inr (Some ?a, ?s')" using run True by simp
    have tick: "\<exists>t fi'. ready_event E' ?k (?s'\<lparr>heap := (heap ?s')(?a \<mapsto> fi\<lparr>owner := own\<rparr>)\<rparr>) =
                   Some (Inr t) \<and>
                 heap t ?a = Some fi' \<and> net_tag fi' = NET_TCP_CLIENT \<and>
                 calls t = calls s @ (case own of None \<Rightarrow> [] | Some ow \<Rightarrow> [Connected ow]) \<and>
                 events (o2n_fds t ! ?k) = POLLIN"
      if p: "0 \<le> ?sock \<and> sys_poll E' (clock ?s') ?k = POLLOUT" for E' own
    proof -
      let ?s'' = "?s'\<lparr>heap := (heap ?s')(?a \<mapsto> fi\<lparr>owner := own\<rparr>)\<rparr>"
      have k: "?k < length (o2n_fds ?s'')" "0 \<le> fd (o2n_fds ?s'' ! ?k)"
        using s2(7) p by (simp_all add: set_POLLOUT_def)
      have cl: "clock ?s'' = clock ?s'" by simp
      from poll_revents [OF k, of E'] p
      have rev: "revents (o2n_fds (poll E' ?s'') ! ?k) = POLLOUT" by (simp only: cl)
      have ev: "events (o2n_fds (poll E' ?s'') ! ?k) = POLLIN OR POLLOUT"
        using s2(7) by (simp add: poll_def nth_enumerate_eq set_POLLOUT_def)
      have lp: "?k < length (o2n_fds (poll E' ?s''))" "?k < length (o2n_fds_info (poll E' ?s''))"
        "o2n_fds_info (poll E' ?s'') ! ?k = ?a"
        using s2(6,7) len by (simp_all add: poll_def set_POLLOUT_def)
      have hp: "heap (poll E' ?s'') ?a = Some (fi\<lparr>owner := own\<rparr>)"
        by (simp add: set_POLLOUT_def)
      have cp: "calls (poll E' ?s'') = calls s" using s2(8) by (simp add: set_POLLOUT_def)
      show ?thesis
        using rev ev lp hp cp s2(3,5)
        by (cases own)
          (simp_all add: ready_event_def dispatch_def Let_def clear_POLLOUT_def POLLOUT_cleared)
    qed
    show ?thesis
      using r s2 True tick
      by (intro exI [of _ ?s'] exI [of _ fi]) (simp add: set_POLLOUT_def)
  next
    case False
    let ?fi = "fi\<lparr>net_tag := NET_TCP_CLIENT\<rparr>"
    let ?s' = "s2\<lparr>clock := Suc (Suc (clock s)), heap := (heap s2)(?a \<mapsto> ?fi)\<rparr>"
    have r: "create_tcp_client E ra s = Inr (Some ?a, ?s')" using run False by simp
    have quiet: "\<exists>evs. calls t = calls s @ evs \<and> (\<forall>ow. Connected ow \<notin> set evs)"
      if d: "ready_event E' ?k (?s'\<lparr>heap := (heap ?s')(?a \<mapsto> ?fi\<lparr>owner := own\<rparr>)\<rparr>) = Some (Inr t)"
      for E' own t
    proof -
      let ?s'' = "?s'\<lparr>heap := (heap ?s')(?a \<mapsto> ?fi\<lparr>owner := own\<rparr>)\<rparr>"
      have lp: "?k < length (o2n_fds_info (poll E' ?s''))" using s2(6) len by simp
      have hp: "heap (poll E' ?s'') (o2n_fds_info (poll E' ?s'') ! ?k) = Some (?fi\<lparr>owner := own\<rparr>)"
        using s2(6) len by simp
      from dispatch_client_calls [OF d [unfolded ready_event_def] lp hp] s2(5,8)
      show ?thesis by simp
    qed
    have tick: "\<exists>t. ready_event E' ?k (?s'\<lparr>heap := (heap ?s')(?a \<mapsto> ?fi\<lparr>owner := own\<rparr>)\<rparr>) =
                   Some (Inr t) \<and> calls t = calls s"
      if p: "0 \<le> ?sock \<and> sys_poll E' (clock ?s') ?k = POLLOUT" for E' own
    proof -
      let ?s'' = "?s'\<lparr>heap := (heap ?s')(?a \<mapsto> ?fi\<lparr>owner := own\<rparr>)\<rparr>"
      have k: "?k < length (o2n_fds ?s'')" "0 \<le> fd (o2n_fds ?s'' ! ?k)"
        using s2(7) p by simp_all
      have cl: "clock ?s'' = clock ?s'" by simp
      from poll_revents [OF k, of E'] p
      have rev: "revents (o2n_fds (poll E' ?s'') ! ?k) = POLLOUT" by (simp only: cl)
      have lp: "?k < length (o2n_fds (poll E' ?s''))" "?k < length (o2n_fds_info (poll E' ?s''))"
        "o2n_fds_info (poll E' ?s'') ! ?k = ?a"
        using s2(6,7) len by (simp_all add: poll_def)
      have hp: "heap (poll E' ?s'') ?a = Some (?fi\<lparr>owner := own\<rparr>)" by simp
      have cp: "calls (poll E' ?s'') = calls s" using s2(8) by simp
      show ?thesis
        using rev lp hp cp s2(5)
        by (simp add: ready_event_def dispatch_def Let_def clear_POLLOUT_def)
    qed
    show ?thesis
      using r s2 False quiet tick
      by (intro exI [of _ ?s'] exI [of _ ?fi]) simp
  qed
qed

text \<open>
  The theorem of C8 for a connection in progress in the initial state: socket 5 is
  registered at index 0, and the write-ready tick notifies the owner 1 attached to it.
\<close>

theorem connect_outcomes_witness:
  "\<exists>s' fi t fi'. create_tcp_client env_inprogress server_addr net_init = Inr (Some 0, s') \<and>
     o2n_fds_info s' = [0] \<and> fd (o2n_fds s' ! 0) = 5 \<and> nonblock s' 5 \<and>
     heap s' 0 = Some fi \<and> net_tag fi = NET_TCP_CONNECTING \<and>
     events (o2n_fds s' ! 0) = POLLIN OR POLLOUT \<and>
     ready_event env_capped 0 (s'\<lparr>heap := (heap s')(0 \<mapsto> fi\<lparr>owner := Some 1\<rparr>)\<rparr>) =
       Some (Inr t) \<and>
     heap t 0 = Some fi' \<and> net_tag fi' = NET_TCP_CLIENT \<and> calls t = [Connected 1] \<and>
     events (o2n_fds t ! 0) = POLLIN"
proof -
  have a: "sys_socket env_inprogress (clock net_init) = 5"
      "sys_connect env_inprogress (Suc (clock net_init)) = (- 1, EINPROGRESS)"
      "next_addr net_init = 0" "o2n_fds net_init = []" "o2n_fds_info net_init = []"
      "calls net_init = []"
    by (simp_all add: env_inprogress_def example_env_def net_init_def)
  have p: "\<And>t k. sys_poll env_capped t k = POLLOUT" by (simp add: env_capped_def)
  from connect_outcomes [OF net_init_inv, of env_inprogress server_addr]
  obtain s' fi where s': "create_tcp_client env_inprogress server_addr net_init = Inr (Some 0, s')"
      "o2n_fds_info s' = [0]" "fd (o2n_fds s' ! 0) = 5" "nonblock s' 5"
      "heap s' 0 = Some fi" "net_tag fi = NET_TCP_CONNECTING"
      "events (o2n_fds s' ! 0) = POLLIN OR POLLOUT"
      "\<forall>E' own. sys_poll E' (clock s') 0 = POLLOUT \<longrightarrow>
         (\<exists>t fi'. ready_event E' 0 (s'\<lparr>heap := (heap s')(0 \<mapsto> fi\<lparr>owner := own\<rparr>)\<rparr>) =
                    Some (Inr t) \<and>
            heap t 0 = Some fi' \<and> net_tag fi' = NET_TCP_CLIENT \<and>
            calls t = (case own of None \<Rightarrow> [] | Some ow \<Rightarrow> [Connected ow]) \<and>
            events (o2n_fds t ! 0) = POLLIN)"
    unfolding a by (auto simp: INVALID_SOCKET_def)
  from s'(8) p obtain t fi' where
    "ready_event env_capped 0 (s'\<lparr>heap := (heap s')(0 \<mapsto> fi\<lparr>owner := Some 1\<rparr>)\<rparr>) = Some (Inr t)"
    "heap t 0 = Some fi'" "net_tag fi' = NET_TCP_CLIENT" "calls t = [Connected 1]"
    "events (o2n_fds t ! 0) = POLLIN"
    by fastforce
  with s'(1-7) show ?thesis by blast
qed

text \<open>
  C8, after an immediate success of \<^verbatim>\<open>connect\<close> in the initial state: the connection is a
  \<^verbatim>\<open>NET_TCP_CLIENT\<close> with owner 1 attached, and neither a write-ready tick nor an idle tick
  calls \<^verbatim>\<open>connected()\<close>.
\<close>

theorem immediate_connect_is_not_notified:
  "\<exists>s' fi t u. create_tcp_client example_env server_addr net_init = Inr (Some 0, s') \<and>
     heap s' 0 = Some fi \<and> net_tag fi = NET_TCP_CLIENT \<and> events (o2n_fds s' ! 0) = POLLIN \<and>
     ready_event env_capped 0 (s'\<lparr>heap := (heap s')(0 \<mapsto> fi\<lparr>owner := Some 1\<rparr>)\<rparr>) =
       Some (Inr t) \<and> calls t = [] \<and>
     ready_event example_env 0 (s'\<lparr>heap := (heap s')(0 \<mapsto> fi\<lparr>owner := Some 1\<rparr>)\<rparr>) =
       Some (Inr u) \<and> calls u = []"
  by (simp add: create_tcp_client_def o2n_tcp_socket_new_def Fds_info_new_def Let_def
      example_env_def env_capped_def net_init_def INVALID_SOCKET_def bounds_check_def
      ready_event_def dispatch_def poll_def clear_POLLOUT_def has_flag_def
      POLLIN_def POLLOUT_def POLLERR_def POLLHUP_def)

end
